theory Spec2Isabelle
  imports Main "HOL-Library.Sublist"
begin

section \<open>Python values the runner works with\<close>

text \<open>
  \<^verbatim>\<open>str(n)\<close> for a Python int: the decimal digits, with a leading minus sign for a
  negative number. Python ints are unbounded, so the model uses \<open>int\<close>.
\<close>

definition digit_char :: "nat \<Rightarrow> char" where
  "digit_char d = ''0123456789'' ! d"

fun str_nat :: "nat \<Rightarrow> string" where
  "str_nat n = (if n < 10 then [digit_char n] else str_nat (n div 10) @ [digit_char (n mod 10)])"

declare str_nat.simps [simp del]

definition str_int :: "int \<Rightarrow> string" where
  "str_int i = (if i < 0 then ''-'' @ str_nat (nat (- i)) else str_nat (nat i))"

text \<open>
  An exception object as the handler of \<^verbatim>\<open>run\<close> sees it: \<^verbatim>\<open>type(e).__name__\<close>,
  \<^verbatim>\<open>str(e)\<close>, and whether \<^verbatim>\<open>isinstance(e, Exception)\<close> holds, which is what the clause
  \<^verbatim>\<open>except Exception as e\<close> tests. \<^verbatim>\<open>SystemExit\<close>, \<^verbatim>\<open>KeyboardInterrupt\<close> and
  \<^verbatim>\<open>GeneratorExit\<close> derive from \<^verbatim>\<open>BaseException\<close> only.
\<close>

record exn =
  type_name :: string
  str_of :: string
  is_Exception :: bool

text \<open>
  What a call \<^verbatim>\<open>self.job()\<close> does: it returns the pair \<^verbatim>\<open>(result, output)\<close>, it raises,
  or it never comes back (a job body may block for ever). As the docstring of \<^verbatim>\<open>job\<close> says,
  a job body takes its input from the runner and hands its result back through the value it
  returns; it is taken not to assign the fields of the runner itself.
\<close>

datatype job_outcome = Returned int string | Raised exn | Never_returns

text \<open>
  A reference to a \<^verbatim>\<open>threading.Event\<close> that a runner may be gated on: the
  \<^verbatim>\<open>stop_event\<close> of the runner at some position of an orchestrator's list, or an event
  owned by other code.
\<close>

datatype event_ref = Stop_event_of nat | Other_event nat

section \<open>BaseJobRunner\<close>

text \<open>
  The program points of \<^verbatim>\<open>BaseJobRunner.run\<close>, named after the source line that is
  executed next. Inside the \<^verbatim>\<open>finally\<close> block the point carries the exception that
  the \<^verbatim>\<open>except Exception\<close> clause did not catch, if there is one; it is raised again
  when the block ends. \<open>Done None\<close>: \<^verbatim>\<open>run\<close> has returned. \<open>Done (Some e)\<close>: \<open>e\<close> has
  left \<^verbatim>\<open>run\<close>.
\<close>

datatype pc =
    Line_87
  | Line_89
  | Line_92
  | Line_93
  | Line_97
  | Line_108 "exn option"
  | Line_109 "exn option"
  | Line_111 "exn option"
  | Done "exn option"

text \<open>
  The fields of a \<^verbatim>\<open>BaseJobRunner\<close>. Callbacks act on the state \<open>'e\<close> of their owner (for
  the command-line interface, its list of results). \<open>stop_event\<close> is the flag of the
  runner's own \<^verbatim>\<open>threading.Event\<close>. \<open>thread\<close> is \<open>None\<close> while \<^verbatim>\<open>self.thread\<close> is
  \<^verbatim>\<open>None\<close>, and otherwise the program point of the thread that executes \<^verbatim>\<open>run\<close>.
  \<open>setup_kwargs\<close> keeps the keyword arguments of \<^verbatim>\<open>set_args\<close> as text;
  \<open>output_text\<close> is the field \<^verbatim>\<open>output\<close>.
\<close>

record 'e runner =
  name :: string
  thread :: "pc option"
  start_gating_event :: "event_ref option"
  start_callback :: "(string \<Rightarrow> 'e \<Rightarrow> 'e) option"
  stop_callback :: "(string \<Rightarrow> string \<Rightarrow> string \<Rightarrow> 'e \<Rightarrow> 'e) option"
  stop_event :: bool
  running :: bool
  result :: int
  output_text :: string
  result_message :: string
  setup_kwargs :: "string \<rightharpoonup> string"

type_synonym 'e job = "'e runner \<Rightarrow> job_outcome"

definition dummy_method_1 :: "string \<Rightarrow> 'e \<Rightarrow> 'e" where
  "dummy_method_1 nm env = env"

definition dummy_method_3 :: "string \<Rightarrow> string \<Rightarrow> string \<Rightarrow> 'e \<Rightarrow> 'e" where
  "dummy_method_3 nm msg out env = env"

definition init :: "string \<Rightarrow> 'e runner" where
  "init nm =
     \<lparr> name = nm,
       thread = None,
       start_gating_event = None,
       start_callback = Some dummy_method_1,
       stop_callback = Some dummy_method_3,
       stop_event = False,
       running = False,
       result = - 1,
       output_text = [],
       result_message = [],
       setup_kwargs = Map.empty \<rparr>"

definition set_start_gating_event :: "event_ref option \<Rightarrow> 'e runner \<Rightarrow> 'e runner" where
  "set_start_gating_event g r = r\<lparr>start_gating_event := g\<rparr>"

definition set_start_callback :: "(string \<Rightarrow> 'e \<Rightarrow> 'e) option \<Rightarrow> 'e runner \<Rightarrow> 'e runner" where
  "set_start_callback cb r = r\<lparr>start_callback := cb\<rparr>"

definition set_stop_callback ::
  "(string \<Rightarrow> string \<Rightarrow> string \<Rightarrow> 'e \<Rightarrow> 'e) option \<Rightarrow> 'e runner \<Rightarrow> 'e runner" where
  "set_stop_callback cb r = r\<lparr>stop_callback := cb\<rparr>"

definition set_args :: "(string \<rightharpoonup> string) \<Rightarrow> 'e runner \<Rightarrow> 'e runner" where
  "set_args kwargs r = r\<lparr>setup_kwargs := kwargs\<rparr>"

text \<open>
  \<^verbatim>\<open>start\<close>: the three result fields are reset, the stop event is cleared if it is set,
  and a new thread is created whose first statement to execute is line 87 of \<^verbatim>\<open>run\<close>.
\<close>

definition start :: "'e runner \<Rightarrow> 'e runner" where
  "start r =
     (let r1 = r\<lparr>result := - 1\<rparr>;
          r2 = r1\<lparr>output_text := []\<rparr>;
          r3 = r2\<lparr>result_message := []\<rparr>;
          r4 = (if stop_event r3 then r3\<lparr>stop_event := False\<rparr> else r3)
      in r4\<lparr>thread := Some Line_87\<rparr>)"

text \<open>The job body of the base class, used when a subclass does not override it.\<close>

definition job :: "'e job" where
  "job r = (let res = 1; out = ''Override this method'' in Returned res out)"

text \<open>\<^verbatim>\<open>terminate\<close> of the base class only prints.\<close>

definition terminate :: "'e runner \<Rightarrow> 'e runner" where
  "terminate r = r"

text \<open>
  Lines 96 to 105, the \<^verbatim>\<open>try\<close> statement without its \<^verbatim>\<open>finally\<close> block, for the job
  body \<open>jb\<close> of the runner's class. \<open>None\<close>: the job never comes back. Otherwise the
  runner as the \<^verbatim>\<open>finally\<close> block finds it, together with the exception that
  \<^verbatim>\<open>except Exception\<close> did not catch, if there is one.
\<close>

definition try_job :: "'e job \<Rightarrow> 'e runner \<Rightarrow> ('e runner \<times> exn option) option" where
  "try_job jb r =
     (case jb r of
        Returned res out \<Rightarrow>
          Some (r\<lparr>result := res, output_text := out,
                  result_message :=
                    (if res = 0 then ''Success'' else ''FAIL ('' @ str_int res @ '')'')\<rparr>, None)
      | Raised e \<Rightarrow>
          if is_Exception e
          then Some (r\<lparr>result_message := ''FAIL (Exception)'',
                       output_text := output_text r @ [CHR 0x0A] @ type_name e @ '': '' @ str_of e\<rparr>,
                     None)
          else Some (r, Some e)
      | Never_returns \<Rightarrow> None)"

text \<open>
  One step of the thread that executes \<^verbatim>\<open>run\<close>. \<open>fl\<close> tells which events are set at
  this moment; the owner's state \<open>env\<close> is changed by the callbacks only, and a callback is
  taken to return. A thread that waits (line 90) or whose job does not come back stays
  where it is.
\<close>

definition run_step :: "'e job \<Rightarrow> (event_ref \<Rightarrow> bool) \<Rightarrow> 'e runner \<times> 'e \<Rightarrow> 'e runner \<times> 'e" where
  "run_step jb fl c =
     (case c of (r, env) \<Rightarrow>
       (case thread r of
          None \<Rightarrow> (r, env)
        | Some Line_87 \<Rightarrow> (r\<lparr>running := False, thread := Some Line_89\<rparr>, env)
        | Some Line_89 \<Rightarrow>
            (case start_gating_event r of
               None \<Rightarrow> (r\<lparr>thread := Some Line_92\<rparr>, env)
             | Some g \<Rightarrow> if fl g then (r\<lparr>thread := Some Line_92\<rparr>, env) else (r, env))
        | Some Line_92 \<Rightarrow> (r\<lparr>running := True, thread := Some Line_93\<rparr>, env)
        | Some Line_93 \<Rightarrow>
            (case start_callback r of
               None \<Rightarrow> (r\<lparr>thread := Some Line_97\<rparr>, env)
             | Some cb \<Rightarrow> (r\<lparr>thread := Some Line_97\<rparr>, cb (name r) env))
        | Some Line_97 \<Rightarrow>
            (case try_job jb r of
               None \<Rightarrow> (r, env)
             | Some (r', x) \<Rightarrow> (r'\<lparr>thread := Some (Line_108 x)\<rparr>, env))
        | Some (Line_108 x) \<Rightarrow> (r\<lparr>running := False, thread := Some (Line_109 x)\<rparr>, env)
        | Some (Line_109 x) \<Rightarrow>
            (case stop_callback r of
               None \<Rightarrow> (r\<lparr>thread := Some (Line_111 x)\<rparr>, env)
             | Some cb \<Rightarrow>
                 (r\<lparr>thread := Some (Line_111 x)\<rparr>,
                  cb (name r) (result_message r) (output_text r) env))
        | Some (Line_111 x) \<Rightarrow> (r\<lparr>stop_event := True, thread := Some (Done x)\<rparr>, env)
        | Some (Done x) \<Rightarrow> (r, env)))"

text \<open>
  An execution of the thread: one step for each element of \<open>fls\<close>, which gives the events
  that are set when that step is taken.
\<close>

fun run_steps :: "'e job \<Rightarrow> (event_ref \<Rightarrow> bool) list \<Rightarrow> 'e runner \<times> 'e \<Rightarrow> 'e runner \<times> 'e" where
  "run_steps jb [] c = c"
| "run_steps jb (fl # fls) c = run_steps jb fls (run_step jb fl c)"

text \<open>The start gate of \<open>r\<close> does not hold the thread back when the events are as \<open>fl\<close> says.\<close>

definition gate_open :: "'e runner \<Rightarrow> (event_ref \<Rightarrow> bool) \<Rightarrow> bool" where
  "gate_open r fl = (case start_gating_event r of None \<Rightarrow> True | Some g \<Rightarrow> fl g)"

subsection \<open>The course of one run\<close>

text \<open>
  \<open>run_entry r\<close>: a thread is about to execute \<^verbatim>\<open>run\<close> on \<open>r\<close>, as after \<^verbatim>\<open>start\<close> or when
  \<^verbatim>\<open>run\<close> is called directly, as the test of the exception path does. For such a run:
  the runner as the job body finds it, the owner's state once the start callback has been
  called, and the owner's state once the stop callback has been called on a runner \<open>r'\<close>.
\<close>

definition run_entry :: "'e runner \<Rightarrow> 'e runner" where
  "run_entry r = r\<lparr>thread := Some Line_87\<rparr>"

definition before_job :: "'e runner \<Rightarrow> 'e runner" where
  "before_job r = r\<lparr>running := True, thread := Some Line_97\<rparr>"

definition started_env :: "'e runner \<Rightarrow> 'e \<Rightarrow> 'e" where
  "started_env r env = (case start_callback r of None \<Rightarrow> env | Some cb \<Rightarrow> cb (name r) env)"

definition stopped_env :: "'e runner \<Rightarrow> 'e \<Rightarrow> 'e" where
  "stopped_env r' env =
     (case stop_callback r' of
        None \<Rightarrow> env
      | Some cb \<Rightarrow> cb (name r') (result_message r') (output_text r') env)"

text \<open>
  The configurations that a run begun at \<open>run_entry r\<close> goes through, in order: one for
  each program point.
\<close>

definition stages :: "'e job \<Rightarrow> 'e runner \<Rightarrow> 'e \<Rightarrow> ('e runner \<times> 'e) list" where
  "stages jb r env =
     (let env1 = started_env r env in
      [(r\<lparr>thread := Some Line_87\<rparr>, env),
       (r\<lparr>running := False, thread := Some Line_89\<rparr>, env),
       (r\<lparr>running := False, thread := Some Line_92\<rparr>, env),
       (r\<lparr>running := True, thread := Some Line_93\<rparr>, env),
       (before_job r, env1)] @
      (case try_job jb (before_job r) of
         None \<Rightarrow> []
       | Some (rj, x) \<Rightarrow>
           [(rj\<lparr>thread := Some (Line_108 x)\<rparr>, env1),
            (rj\<lparr>running := False, thread := Some (Line_109 x)\<rparr>, env1),
            (rj\<lparr>running := False, thread := Some (Line_111 x)\<rparr>, stopped_env rj env1),
            (rj\<lparr>running := False, stop_event := True, thread := Some (Done x)\<rparr>,
             stopped_env rj env1)]))"

text \<open>The program points of the \<^verbatim>\<open>finally\<close> block and after it.\<close>

fun past_job :: "pc option \<Rightarrow> bool" where
  "past_job (Some (Line_108 x)) = True"
| "past_job (Some (Line_109 x)) = True"
| "past_job (Some (Line_111 x)) = True"
| "past_job (Some (Done x)) = True"
| "past_job p = False"

text \<open>
  How often the flag of the stop event goes from unset to set, and from set to unset,
  along a sequence of observations.
\<close>

fun rises :: "bool list \<Rightarrow> nat" where
  "rises (a # b # bs) = (if \<not> a \<and> b then 1 else 0) + rises (b # bs)"
| "rises bs = 0"

fun falls :: "bool list \<Rightarrow> nat" where
  "falls (a # b # bs) = (if a \<and> \<not> b then 1 else 0) + falls (b # bs)"
| "falls bs = 0"

text \<open>The configurations of an execution, the first one included.\<close>

fun run_trace ::
  "'e job \<Rightarrow> (event_ref \<Rightarrow> bool) list \<Rightarrow> 'e runner \<times> 'e \<Rightarrow> ('e runner \<times> 'e) list" where
  "run_trace jb [] c = [c]"
| "run_trace jb (fl # fls) c = c # run_trace jb fls (run_step jb fl c)"

section \<open>Cli\<close>

text \<open>
  A record of \<^verbatim>\<open>result_info_list\<close>: name, result message, output. The callbacks of
  \<^verbatim>\<open>Cli\<close> act on that list; what they print is not modelled. Each runs under a
  semaphore of size one, and a step of the model is atomic.
\<close>

type_synonym result_info = "string \<times> string \<times> string"

definition call_when_runner_starts :: "string \<Rightarrow> result_info list \<Rightarrow> result_info list" where
  "call_when_runner_starts nm result_info_list = result_info_list"

definition call_when_runner_stops ::
  "string \<Rightarrow> string \<Rightarrow> string \<Rightarrow> result_info list \<Rightarrow> result_info list" where
  "call_when_runner_stops nm msg out result_info_list = result_info_list @ [(nm, msg, out)]"

text \<open>
  \<^verbatim>\<open>get_exit_return_code\<close>: \<open>Inl 1\<close> is \<^verbatim>\<open>sys.exit(1)\<close>, that is \<^verbatim>\<open>SystemExit(1)\<close>
  raised; \<open>Inr ()\<close> is the return of \<^verbatim>\<open>None\<close>. \<^verbatim>\<open>"Success" not in result_message\<close> is the
  test for a contiguous substring, \<open>sublist\<close>.
\<close>

definition get_exit_return_code :: "result_info list \<Rightarrow> int + unit" where
  "get_exit_return_code result_info_list =
     (let failing_jobs =
            map fst (filter (\<lambda>(nm, msg, out). \<not> sublist ''Success'' msg) result_info_list);
          failures_detected = (length failing_jobs > 0)
      in if failures_detected then Inl 1 else Inr ())"

text \<open>
  The exit status of the process when \<^verbatim>\<open>Cli.run\<close> ends with
  \<^verbatim>\<open>sys.exit(self.get_exit_return_code())\<close>: the code of the \<^verbatim>\<open>SystemExit\<close> raised inside
  the call, or that of \<^verbatim>\<open>sys.exit(None)\<close>, which is 0.
\<close>

definition exit_status :: "result_info list \<Rightarrow> int" where
  "exit_status result_info_list =
     (case get_exit_return_code result_info_list of Inl code \<Rightarrow> code | Inr u \<Rightarrow> 0)"

text \<open>
  The program points of the thread that executes \<^verbatim>\<open>Cli.run\<close>: the two loops with their
  index, the report, and the end of the process with its exit status.
\<close>

datatype main_pc = Line_199 nat | Line_203 nat | Line_206 | Exited int

record cli =
  runners :: "result_info list runner list"
  result_info_list :: "result_info list"
  main :: main_pc

definition cli_init :: "result_info list runner list \<Rightarrow> cli" where
  "cli_init rs =
     \<lparr> runners =
         map (\<lambda>r. set_stop_callback (Some call_when_runner_stops)
                    (set_start_callback (Some call_when_runner_starts) r)) rs,
       result_info_list = [],
       main = Line_199 0 \<rparr>"

text \<open>
  Which events are set while \<^verbatim>\<open>Cli.run\<close> executes: the stop events are those of the
  runners; \<open>ext\<close> gives the events owned by other code.
\<close>

definition cli_flags :: "(nat \<Rightarrow> bool) \<Rightarrow> cli \<Rightarrow> event_ref \<Rightarrow> bool" where
  "cli_flags ext s g =
     (case g of
        Stop_event_of j \<Rightarrow> j < length (runners s) \<and> stop_event (runners s ! j)
      | Other_event n \<Rightarrow> ext n)"

definition cli_main_step :: "cli \<Rightarrow> cli" where
  "cli_main_step s =
     (case main s of
        Line_199 i \<Rightarrow>
          if i < length (runners s)
          then s\<lparr>runners := (runners s)[i := start (runners s ! i)], main := Line_199 (i + 1)\<rparr>
          else s\<lparr>main := Line_203 0\<rparr>
      | Line_203 i \<Rightarrow>
          if i < length (runners s)
          then (if stop_event (runners s ! i) then s\<lparr>main := Line_203 (i + 1)\<rparr> else s)
          else s\<lparr>main := Line_206\<rparr>
      | Line_206 \<Rightarrow> s\<lparr>main := Exited (exit_status (result_info_list s))\<rparr>
      | Exited code \<Rightarrow> s)"

text \<open>
  A step of the thread of the runner at position \<open>i\<close>; \<open>jobs i\<close> is the job body of its
  class.
\<close>

definition cli_runner_step ::
  "(nat \<Rightarrow> result_info list job) \<Rightarrow> (nat \<Rightarrow> bool) \<Rightarrow> nat \<Rightarrow> cli \<Rightarrow> cli" where
  "cli_runner_step jobs ext i s =
     (if i < length (runners s)
      then (case run_step (jobs i) (cli_flags ext s) (runners s ! i, result_info_list s) of
              (r', l') \<Rightarrow> s\<lparr>runners := (runners s)[i := r'], result_info_list := l'\<rparr>)
      else s)"

text \<open>
  The threads run interleaved: a schedule names, step by step, the thread that moves.
\<close>

datatype tid = Main_thread | Runner_thread nat

definition cli_step :: "(nat \<Rightarrow> result_info list job) \<Rightarrow> (nat \<Rightarrow> bool) \<Rightarrow> tid \<Rightarrow> cli \<Rightarrow> cli" where
  "cli_step jobs ext t s =
     (case t of Main_thread \<Rightarrow> cli_main_step s | Runner_thread i \<Rightarrow> cli_runner_step jobs ext i s)"

fun cli_exec :: "(nat \<Rightarrow> result_info list job) \<Rightarrow> (nat \<Rightarrow> bool) \<Rightarrow> tid list \<Rightarrow> cli \<Rightarrow> cli" where
  "cli_exec jobs ext [] s = s"
| "cli_exec jobs ext (t # sched) s = cli_exec jobs ext sched (cli_step jobs ext t s)"

section \<open>Invariants of the interleaved execution\<close>

text \<open>The result message that line 98 computes from a result code.\<close>

definition result_message_of :: "int \<Rightarrow> string" where
  "result_message_of res = (if res = 0 then ''Success'' else ''FAIL ('' @ str_int res @ '')'')"

text \<open>The stop callback of the runner has been called in its current run.\<close>

definition appended :: "'e runner \<Rightarrow> bool" where
  "appended r = (case thread r of Some (Line_111 x) \<Rightarrow> True | Some (Done x) \<Rightarrow> True | _ \<Rightarrow> False)"

text \<open>
  What holds of a runner of \<^verbatim>\<open>Cli\<close> with the name \<open>nm\<close> whose job body returns the result
  code \<open>code\<close>: it is not gated, its callbacks are those of \<^verbatim>\<open>Cli\<close>, its stop event is set
  exactly when its thread has left \<^verbatim>\<open>run\<close>, and from the \<^verbatim>\<open>finally\<close> block on its result
  message is that of \<open>code\<close>.
\<close>

definition runner_ok :: "string \<Rightarrow> int \<Rightarrow> result_info list runner \<Rightarrow> bool" where
  "runner_ok nm code r \<longleftrightarrow>
     name r = nm \<and> start_gating_event r = None \<and>
     start_callback r = Some call_when_runner_starts \<and>
     stop_callback r = Some call_when_runner_stops \<and>
     (case thread r of
        None \<Rightarrow> True
      | Some p \<Rightarrow>
          (stop_event r \<longleftrightarrow> (\<exists>x. p = Done x)) \<and>
          (past_job (Some p) \<longrightarrow> result_message r = result_message_of code))"

text \<open>
  What the program point of \<^verbatim>\<open>Cli.run\<close> tells about the runners: in the first loop the
  runners before the index have a thread and the others have none; in the second loop all
  have a thread and those before the index have their stop event set; afterwards all stop
  events are set, and the exit status is that of the list of results.
\<close>

definition main_ok :: "cli \<Rightarrow> bool" where
  "main_ok s \<longleftrightarrow>
     (case main s of
        Line_199 k \<Rightarrow>
          k \<le> length (runners s) \<and>
          (\<forall>i<length (runners s). thread (runners s ! i) = None \<longleftrightarrow> k \<le> i)
      | Line_203 k \<Rightarrow>
          k \<le> length (runners s) \<and>
          (\<forall>i<length (runners s). thread (runners s ! i) \<noteq> None) \<and>
          (\<forall>i<k. stop_event (runners s ! i))
      | Line_206 \<Rightarrow>
          (\<forall>i<length (runners s). thread (runners s ! i) \<noteq> None \<and> stop_event (runners s ! i))
      | Exited code \<Rightarrow>
          (\<forall>i<length (runners s). thread (runners s ! i) \<noteq> None \<and> stop_event (runners s ! i)) \<and>
          code = exit_status (result_info_list s))"

text \<open>
  The list of results holds one record for each runner whose stop callback has been
  called, in the order \<open>order\<close> of these calls.
\<close>

definition results_ok :: "string list \<Rightarrow> int list \<Rightarrow> cli \<Rightarrow> bool" where
  "results_ok names codes s \<longleftrightarrow>
     (\<exists>order. distinct order \<and>
        set order = {i. i < length (runners s) \<and> appended (runners s ! i)} \<and>
        map (\<lambda>info. (fst info, fst (snd info))) (result_info_list s) =
          map (\<lambda>i. (names ! i, result_message_of (codes ! i))) order)"

definition cli_inv :: "string list \<Rightarrow> int list \<Rightarrow> cli \<Rightarrow> bool" where
  "cli_inv names codes s \<longleftrightarrow>
     length (runners s) = length names \<and>
     (\<forall>i<length names. runner_ok (names ! i) (codes ! i) (runners s ! i)) \<and>
     main_ok s \<and> results_ok names codes s"

text \<open>
  The stop events that \<^verbatim>\<open>Cli.run\<close> has seen set are set, whatever the runners and their
  jobs.
\<close>

definition observed :: "cli \<Rightarrow> bool" where
  "observed s \<longleftrightarrow>
     (case main s of
        Line_199 k \<Rightarrow> True
      | Line_203 k \<Rightarrow> (\<forall>i<k. i < length (runners s) \<longrightarrow> stop_event (runners s ! i))
      | Line_206 \<Rightarrow> (\<forall>i<length (runners s). stop_event (runners s ! i))
      | Exited code \<Rightarrow> (\<forall>i<length (runners s). stop_event (runners s ! i)))"

text \<open>
  Measures of progress: the steps that a thread of \<^verbatim>\<open>run\<close> still has to take when nothing
  holds it back, the steps of the first loop of \<^verbatim>\<open>Cli.run\<close> that are left, and the steps
  after it that are left when every stop event is set.
\<close>

fun rank :: "pc option \<Rightarrow> nat" where
  "rank None = 0"
| "rank (Some Line_87) = 8"
| "rank (Some Line_89) = 7"
| "rank (Some Line_92) = 6"
| "rank (Some Line_93) = 5"
| "rank (Some Line_97) = 4"
| "rank (Some (Line_108 x)) = 3"
| "rank (Some (Line_109 x)) = 2"
| "rank (Some (Line_111 x)) = 1"
| "rank (Some (Done x)) = 0"

definition starts_left :: "cli \<Rightarrow> nat" where
  "starts_left s = (case main s of Line_199 k \<Rightarrow> Suc (length (runners s) - k) | _ \<Rightarrow> 0)"

definition waits_left :: "cli \<Rightarrow> nat" where
  "waits_left s =
     (case main s of
        Line_199 k \<Rightarrow> 0
      | Line_203 k \<Rightarrow> length (runners s) - k + 2
      | Line_206 \<Rightarrow> 1
      | Exited code \<Rightarrow> 0)"

section \<open>Runners and jobs of the tests\<close>

text \<open>
  \<^verbatim>\<open>DummyRunner.job\<close> with \<^verbatim>\<open>job_result\<close> as given, in a run in which the mocking event is
  set and \<^verbatim>\<open>terminate\<close> is not called.
\<close>

definition dummy_job :: "int \<Rightarrow> 'e job" where
  "dummy_job job_result r = Returned job_result (''Output from '' @ name r)"

text \<open>
  A job body that raises \<^verbatim>\<open>TypeError\<close> with the message of the exception test, and one
  that calls \<^verbatim>\<open>sys.exit(3)\<close>.
\<close>

definition type_error_job :: "'e job" where
  "type_error_job r =
     Raised \<lparr>type_name = ''TypeError'', str_of = ''must be str, not NoneType'',
             is_Exception = True\<rparr>"

definition sys_exit_job :: "'e job" where
  "sys_exit_job r = Raised \<lparr>type_name = ''SystemExit'', str_of = ''3'', is_Exception = False\<rparr>"

text \<open>No event is set; every event is set.\<close>

definition none_set :: "event_ref \<Rightarrow> bool" where
  "none_set g = False"

definition all_set :: "event_ref \<Rightarrow> bool" where
  "all_set g = True"

text \<open>Callbacks that count their calls: the first number for the start callback, the second for the stop callback.\<close>

definition count_start :: "string \<Rightarrow> nat \<times> nat \<Rightarrow> nat \<times> nat" where
  "count_start nm env = (fst env + 1, snd env)"

definition count_stop :: "string \<Rightarrow> string \<Rightarrow> string \<Rightarrow> nat \<times> nat \<Rightarrow> nat \<times> nat" where
  "count_stop nm msg out env = (fst env, snd env + 1)"

text \<open>The runner of the unit tests, with the counting callbacks; the same with a start gate.\<close>

definition base_runner :: "(nat \<times> nat) runner" where
  "base_runner =
     set_stop_callback (Some count_stop) (set_start_callback (Some count_start)
       (init ''base runner''))"

definition gated_runner :: "(nat \<times> nat) runner" where
  "gated_runner = set_start_gating_event (Some (Other_event 0)) base_runner"

text \<open>The jobs of three runners that return the result codes 0, 1 and 0.\<close>

definition jobs_0_1_0 :: "nat \<Rightarrow> 'e job" where
  "jobs_0_1_0 i = dummy_job (if i = 1 then 1 else 0)"


text \<open>
  Three runners, none gated, in the order of their construction, and no other event. Two
  schedules: in the first the runners do their runs one after the other in the order of
  construction; in the second the middle runner does its run first. In both the main thread
  first starts the three runners and in the end waits for them.
\<close>

definition three_runners :: "result_info list runner list" where
  "three_runners = [init ''a'', init ''b'', init ''c'']"

definition no_other_event :: "nat \<Rightarrow> bool" where
  "no_other_event n = False"

definition in_order_schedule :: "tid list" where
  "in_order_schedule =
     replicate 4 Main_thread @ replicate 8 (Runner_thread 0) @ replicate 8 (Runner_thread 1) @
     replicate 8 (Runner_thread 2) @ replicate 5 Main_thread"

definition middle_first_schedule :: "tid list" where
  "middle_first_schedule =
     replicate 4 Main_thread @ replicate 8 (Runner_thread 1) @ replicate 8 (Runner_thread 0) @
     replicate 8 (Runner_thread 2) @ replicate 5 Main_thread"


section \<open>Steps of the run body\<close>

lemma start_simps:
  "thread (start r) = Some Line_87" "name (start r) = name r"
  "start_gating_event (start r) = start_gating_event r"
  "start_callback (start r) = start_callback r"
  "stop_callback (start r) = stop_callback r"
  "stop_event (start r) = False" "result (start r) = - 1"
  "output_text (start r) = []" "result_message (start r) = []"
  "running (start r) = running r" "setup_kwargs (start r) = setup_kwargs r"
  by (simp_all add: start_def Let_def)

lemma run_entry_start: "run_entry (start r) = start r"
  by (simp add: run_entry_def start_def Let_def)

lemma try_job_frame:
  "try_job jb r = Some (rj, x) \<Longrightarrow>
     thread rj = thread r \<and> name rj = name r \<and> start_gating_event rj = start_gating_event r \<and>
     start_callback rj = start_callback r \<and> stop_callback rj = stop_callback r \<and>
     stop_event rj = stop_event r \<and> running rj = running r"
  by (auto simp: try_job_def split: job_outcome.splits if_splits)

lemma try_job_Returned:
  "jb r = Returned res out \<Longrightarrow>
     try_job jb r = Some (r\<lparr>result := res, output_text := out,
        result_message := (if res = 0 then ''Success'' else ''FAIL ('' @ str_int res @ '')'')\<rparr>, None)"
  by (simp add: try_job_def)

lemma try_job_caught:
  "jb r = Raised e \<Longrightarrow> is_Exception e \<Longrightarrow>
     try_job jb r = Some (r\<lparr>result_message := ''FAIL (Exception)'',
        output_text := output_text r @ [CHR 0x0A] @ type_name e @ '': '' @ str_of e\<rparr>, None)"
  by (simp add: try_job_def)

lemma try_job_uncaught:
  "jb r = Raised e \<Longrightarrow> \<not> is_Exception e \<Longrightarrow> try_job jb r = Some (r, Some e)"
  by (simp add: try_job_def)

lemma try_job_Some:
  "jb r \<noteq> Never_returns \<Longrightarrow> \<exists>rj x. try_job jb r = Some (rj, x)"
  by (cases "jb r") (simp_all add: try_job_def)

lemma step_87: "thread r = Some Line_87 \<Longrightarrow>
    run_step jb fl (r, env) = (r\<lparr>running := False, thread := Some Line_89\<rparr>, env)"
  by (simp add: run_step_def)

lemma step_89: "thread r = Some Line_89 \<Longrightarrow>
    run_step jb fl (r, env) = (if gate_open r fl then (r\<lparr>thread := Some Line_92\<rparr>, env) else (r, env))"
  by (simp add: run_step_def gate_open_def split: option.splits)

lemma step_92: "thread r = Some Line_92 \<Longrightarrow>
    run_step jb fl (r, env) = (r\<lparr>running := True, thread := Some Line_93\<rparr>, env)"
  by (simp add: run_step_def)

lemma step_93: "thread r = Some Line_93 \<Longrightarrow>
    run_step jb fl (r, env) = (r\<lparr>thread := Some Line_97\<rparr>, started_env r env)"
  by (simp add: run_step_def started_env_def split: option.splits)

lemma step_97: "thread r = Some Line_97 \<Longrightarrow>
    run_step jb fl (r, env) =
      (case try_job jb r of None \<Rightarrow> (r, env) | Some (r', x) \<Rightarrow> (r'\<lparr>thread := Some (Line_108 x)\<rparr>, env))"
  by (simp add: run_step_def)

lemma step_108: "thread r = Some (Line_108 x) \<Longrightarrow>
    run_step jb fl (r, env) = (r\<lparr>running := False, thread := Some (Line_109 x)\<rparr>, env)"
  by (simp add: run_step_def)

lemma step_109: "thread r = Some (Line_109 x) \<Longrightarrow>
    run_step jb fl (r, env) = (r\<lparr>thread := Some (Line_111 x)\<rparr>, stopped_env r env)"
  by (simp add: run_step_def stopped_env_def split: option.splits)

lemma step_111: "thread r = Some (Line_111 x) \<Longrightarrow>
    run_step jb fl (r, env) = (r\<lparr>stop_event := True, thread := Some (Done x)\<rparr>, env)"
  by (simp add: run_step_def)

lemma step_Done: "thread r = Some (Done x) \<Longrightarrow> run_step jb fl (r, env) = (r, env)"
  by (simp add: run_step_def)

lemmas step_simps =
  step_87 step_89 step_92 step_93 step_97 step_108 step_109 step_111 step_Done

lemma gate_open_simps:
  "gate_open (r\<lparr>running := b\<rparr>) = gate_open r"
  "gate_open (r\<lparr>thread := p\<rparr>) = gate_open r"
  "gate_open (start r) = gate_open r"
  by (simp_all add: gate_open_def fun_eq_iff start_simps)

lemma started_env_simps:
  "started_env (r\<lparr>running := b\<rparr>) = started_env r"
  "started_env (r\<lparr>thread := p\<rparr>) = started_env r"
  "started_env (start r) = started_env r"
  by (simp_all add: started_env_def start_simps fun_eq_iff split: option.splits)

lemma stopped_env_simps:
  "stopped_env (r\<lparr>running := b\<rparr>) = stopped_env r"
  "stopped_env (r\<lparr>thread := p\<rparr>) = stopped_env r"
  "stopped_env (r\<lparr>stop_event := b\<rparr>) = stopped_env r"
  by (simp_all add: stopped_env_def fun_eq_iff split: option.splits)

lemma run_steps_append: "run_steps jb (as @ bs) c = run_steps jb bs (run_steps jb as c)"
  by (induction as arbitrary: c) simp_all

lemma run_steps_Done:
  "thread r = Some (Done x) \<Longrightarrow> run_steps jb fls (r, env) = (r, env)"
  by (induction fls) (simp_all add: step_Done)

section \<open>Every configuration of a run is one of its stages\<close>

lemma stages_None:
  "try_job jb (before_job r) = None \<Longrightarrow> c \<in> set (stages jb r env) \<longleftrightarrow>
     c = (r\<lparr>thread := Some Line_87\<rparr>, env) \<or>
     c = (r\<lparr>running := False, thread := Some Line_89\<rparr>, env) \<or>
     c = (r\<lparr>running := False, thread := Some Line_92\<rparr>, env) \<or>
     c = (r\<lparr>running := True, thread := Some Line_93\<rparr>, env) \<or>
     c = (before_job r, started_env r env)"
  by (simp add: stages_def Let_def)

lemma stages_Some:
  "try_job jb (before_job r) = Some (rj, x) \<Longrightarrow> c \<in> set (stages jb r env) \<longleftrightarrow>
     c = (r\<lparr>thread := Some Line_87\<rparr>, env) \<or>
     c = (r\<lparr>running := False, thread := Some Line_89\<rparr>, env) \<or>
     c = (r\<lparr>running := False, thread := Some Line_92\<rparr>, env) \<or>
     c = (r\<lparr>running := True, thread := Some Line_93\<rparr>, env) \<or>
     c = (before_job r, started_env r env) \<or>
     c = (rj\<lparr>thread := Some (Line_108 x)\<rparr>, started_env r env) \<or>
     c = (rj\<lparr>running := False, thread := Some (Line_109 x)\<rparr>, started_env r env) \<or>
     c = (rj\<lparr>running := False, thread := Some (Line_111 x)\<rparr>, stopped_env rj (started_env r env)) \<or>
     c = (rj\<lparr>running := False, stop_event := True, thread := Some (Done x)\<rparr>,
          stopped_env rj (started_env r env))"
  by (simp add: stages_def Let_def)

lemma stages_entry: "(run_entry r, env) \<in> set (stages jb r env)"
  by (simp add: stages_def Let_def run_entry_def)

lemma stages_step:
  assumes "c \<in> set (stages jb r env)"
  shows "run_step jb fl c \<in> set (stages jb r env)"
proof (cases "try_job jb (before_job r)")
  case None
  from assms show ?thesis unfolding stages_None[OF None]
    by (elim disjE)
      (simp_all add: step_simps before_job_def started_env_simps None[unfolded before_job_def])
next
  case (Some a)
  obtain rj x where a: "a = (rj, x)" by (cases a)
  note S = Some[unfolded a]
  note fr = try_job_frame[OF S]
  have fr': "thread rj = Some Line_97" "name rj = name r" "stop_callback rj = stop_callback r"
    using fr by (simp_all add: before_job_def)
  from assms show ?thesis unfolding stages_Some[OF S]
    by (elim disjE)
      (simp_all add: step_simps before_job_def started_env_simps stopped_env_simps
        S[unfolded before_job_def] fr')
qed

lemma stages_run_steps:
  "c \<in> set (stages jb r env) \<Longrightarrow> run_steps jb fls c \<in> set (stages jb r env)"
  by (induction fls arbitrary: c) (simp_all add: stages_step)

lemma run_in_stages: "run_steps jb fls (run_entry r, env) \<in> set (stages jb r env)"
  by (rule stages_run_steps[OF stages_entry])

lemma stages_past_job:
  assumes "c \<in> set (stages jb r env)" and "past_job (thread (fst c))"
  shows "\<exists>rj x. try_job jb (before_job r) = Some (rj, x) \<and>
           result (fst c) = result rj \<and> output_text (fst c) = output_text rj \<and>
           result_message (fst c) = result_message rj \<and>
           thread (fst c) \<in> {Some (Line_108 x), Some (Line_109 x), Some (Line_111 x), Some (Done x)}"
proof (cases "try_job jb (before_job r)")
  case None
  from assms show ?thesis unfolding stages_None[OF None]
    by (elim disjE) (simp_all add: before_job_def)
next
  case (Some a)
  obtain rj x where a: "a = (rj, x)" by (cases a)
  note S = Some[unfolded a]
  from assms show ?thesis unfolding stages_Some[OF S]
    by (elim disjE) (simp_all add: before_job_def S[unfolded before_job_def])
qed

lemma stages_finally:
  assumes "c \<in> set (stages jb r env)"
  shows "(thread (fst c) = Some (Line_109 x) \<longrightarrow>
            \<not> running (fst c) \<and> stop_event (fst c) = stop_event r \<and> name (fst c) = name r \<and>
            snd c = started_env r env) \<and>
         (thread (fst c) = Some (Line_111 x) \<longrightarrow>
            \<not> running (fst c) \<and> stop_event (fst c) = stop_event r \<and>
            snd c = stopped_env (fst c) (started_env r env)) \<and>
         (thread (fst c) = Some (Done x) \<longrightarrow>
            \<not> running (fst c) \<and> stop_event (fst c) \<and>
            snd c = stopped_env (fst c) (started_env r env)) \<and>
         ((\<forall>y. thread (fst c) \<noteq> Some (Done y)) \<longrightarrow> stop_event (fst c) = stop_event r)"
proof (cases "try_job jb (before_job r)")
  case None
  from assms show ?thesis unfolding stages_None[OF None]
    by (elim disjE) (simp_all add: before_job_def)
next
  case (Some a)
  obtain rj y where a: "a = (rj, y)" by (cases a)
  note S = Some[unfolded a]
  from try_job_frame[OF S]
  have fr: "thread rj = Some Line_97" "stop_event rj = stop_event r" "name rj = name r"
    by (simp_all add: before_job_def)
  from assms show ?thesis unfolding stages_Some[OF S]
    by (elim disjE) (simp_all add: before_job_def fr stopped_env_simps)
qed

lemma stages_before_job:
  assumes "c \<in> set (stages jb r env)"
  shows "(thread (fst c) = Some Line_87 \<longrightarrow> snd c = env) \<and>
         (thread (fst c) = Some Line_89 \<longrightarrow> \<not> running (fst c) \<and> snd c = env) \<and>
         (thread (fst c) = Some Line_92 \<longrightarrow> \<not> running (fst c) \<and> snd c = env) \<and>
         (thread (fst c) = Some Line_93 \<longrightarrow> running (fst c) \<and> snd c = env) \<and>
         (thread (fst c) = Some Line_97 \<longrightarrow> fst c = before_job r \<and> snd c = started_env r env) \<and>
         (past_job (thread (fst c)) \<longrightarrow>
            snd c = started_env r env \<or> snd c = stopped_env (fst c) (started_env r env))"
proof (cases "try_job jb (before_job r)")
  case None
  from assms show ?thesis unfolding stages_None[OF None]
    by (elim disjE) (simp_all add: before_job_def)
next
  case (Some a)
  obtain rj y where a: "a = (rj, y)" by (cases a)
  note S = Some[unfolded a]
  from try_job_frame[OF S]
  have fr: "thread rj = Some Line_97" "stop_event rj = stop_event r" "name rj = name r"
    by (simp_all add: before_job_def)
  from assms show ?thesis unfolding stages_Some[OF S]
    by (elim disjE) (simp_all add: before_job_def fr stopped_env_simps)
qed

section \<open>A run whose gate is open ends; a run whose gate is closed waits\<close>

lemma length_ge_8:
  "8 \<le> length fls \<Longrightarrow>
     \<exists>f1 f2 f3 f4 f5 f6 f7 f8 rest. fls = f1 # f2 # f3 # f4 # f5 # f6 # f7 # f8 # rest"
  by (simp add: eval_nat_numeral Suc_le_length_iff) blast

lemma run_completes:
  assumes S: "try_job jb (before_job r) = Some (rj, x)"
    and len: "8 \<le> length fls" and op: "list_all (gate_open r) fls"
  shows "run_steps jb fls (run_entry r, env) =
           (rj\<lparr>running := False, stop_event := True, thread := Some (Done x)\<rparr>,
            stopped_env rj (started_env r env))"
proof -
  from length_ge_8[OF len] obtain f1 f2 f3 f4 f5 f6 f7 f8 rest
    where fls: "fls = f1 # f2 # f3 # f4 # f5 # f6 # f7 # f8 # rest" by blast
  from op fls have g: "gate_open r f2" by simp
  note fr = try_job_frame[OF S]
  have fr': "thread rj = Some Line_97" using fr by (simp add: before_job_def)
  have "run_steps jb [f1, f2, f3, f4, f5, f6, f7, f8] (run_entry r, env) =
          (rj\<lparr>running := False, stop_event := True, thread := Some (Done x)\<rparr>,
            stopped_env rj (started_env r env))"
    using g by (simp add: run_entry_def step_simps gate_open_simps started_env_simps
        stopped_env_simps S[unfolded before_job_def] fr')
  moreover have "run_steps jb fls (run_entry r, env) =
      run_steps jb rest (run_steps jb [f1, f2, f3, f4, f5, f6, f7, f8] (run_entry r, env))"
    by (simp add: fls)
  ultimately show ?thesis by (simp add: run_steps_Done)
qed

lemma run_ends:
  assumes "jb (before_job r) \<noteq> Never_returns" and "8 \<le> length fls" and "list_all (gate_open r) fls"
  shows "\<exists>x. thread (fst (run_steps jb fls (run_entry r, env))) = Some (Done x)"
proof -
  from try_job_Some[of jb "before_job r", OF assms(1)] obtain rj x
    where "try_job jb (before_job r) = Some (rj, x)" by blast
  from run_completes[OF this assms(2,3)] show ?thesis by simp
qed

lemma run_prefixes:
  assumes S: "try_job jb (before_job r) = Some (rj, x)" and g: "gate_open r f2"
  shows "run_steps jb [f1, f2, f3, f4] (run_entry r, env) = (before_job r, started_env r env)"
    and "run_steps jb [f1, f2, f3, f4, f5] (run_entry r, env) =
           (rj\<lparr>thread := Some (Line_108 x)\<rparr>, started_env r env)"
    and "run_steps jb [f1, f2, f3, f4, f5, f6] (run_entry r, env) =
           (rj\<lparr>running := False, thread := Some (Line_109 x)\<rparr>, started_env r env)"
    and "run_steps jb [f1, f2, f3, f4, f5, f6, f7] (run_entry r, env) =
           (rj\<lparr>running := False, thread := Some (Line_111 x)\<rparr>,
            stopped_env rj (started_env r env))"
proof -
  from try_job_frame[OF S] have fr: "thread rj = Some Line_97" by (simp add: before_job_def)
  show "run_steps jb [f1, f2, f3, f4] (run_entry r, env) = (before_job r, started_env r env)"
    using g by (simp add: run_entry_def step_simps gate_open_simps started_env_simps before_job_def)
  show "run_steps jb [f1, f2, f3, f4, f5] (run_entry r, env) =
           (rj\<lparr>thread := Some (Line_108 x)\<rparr>, started_env r env)"
    using g by (simp add: run_entry_def step_simps gate_open_simps started_env_simps
        S[unfolded before_job_def])
  show "run_steps jb [f1, f2, f3, f4, f5, f6] (run_entry r, env) =
           (rj\<lparr>running := False, thread := Some (Line_109 x)\<rparr>, started_env r env)"
    using g by (simp add: run_entry_def step_simps gate_open_simps started_env_simps
        S[unfolded before_job_def] fr)
  show "run_steps jb [f1, f2, f3, f4, f5, f6, f7] (run_entry r, env) =
           (rj\<lparr>running := False, thread := Some (Line_111 x)\<rparr>,
            stopped_env rj (started_env r env))"
    using g by (simp add: run_entry_def step_simps gate_open_simps started_env_simps
        stopped_env_simps S[unfolded before_job_def] fr)
qed

lemma run_to_job:
  assumes g: "gate_open r f2"
  shows "run_steps jb [f1, f2] (run_entry r, env) = (r\<lparr>running := False, thread := Some Line_92\<rparr>, env)"
    and "run_steps jb [f1, f2, f3] (run_entry r, env) = (r\<lparr>running := True, thread := Some Line_93\<rparr>, env)"
    and "run_steps jb [f1, f2, f3, f4] (run_entry r, env) = (before_job r, started_env r env)"
  using g by (simp_all add: run_entry_def step_simps gate_open_simps started_env_simps before_job_def)

lemma wait_at_gate:
  assumes "thread q = Some Line_89" and "start_gating_event q = Some g"
  shows "list_all (\<lambda>fl. \<not> fl g) fls \<Longrightarrow> run_steps jb fls (q, env) = (q, env)"
  by (induction fls) (simp_all add: step_89 assms gate_open_def)

lemma gate_closed:
  assumes "start_gating_event r = Some g" and "list_all (\<lambda>fl. \<not> fl g) fls"
  shows "run_steps jb fls (run_entry r, env) =
           (if fls = [] then (run_entry r, env)
            else (r\<lparr>running := False, thread := Some Line_89\<rparr>, env))"
proof (cases fls)
  case Nil
  then show ?thesis by simp
next
  case (Cons fl fls')
  with assms(2) have "list_all (\<lambda>fl. \<not> fl g) fls'" by simp
  then have "run_steps jb fls' (r\<lparr>running := False, thread := Some Line_89\<rparr>, env) =
          (r\<lparr>running := False, thread := Some Line_89\<rparr>, env)"
    by (intro wait_at_gate[where g = g]) (simp_all add: assms(1))
  then show ?thesis using Cons by (simp add: run_entry_def step_87)
qed

section \<open>The stop event is never cleared by a step\<close>

lemma step_keeps_stop_event:
  assumes a: "stop_event (fst c)"
  shows "stop_event (fst (run_step jb fl c))"
proof -
  obtain q env where c: "c = (q, env)" by (cases c)
  show ?thesis
  proof (cases "thread q")
    case None
    then show ?thesis using a c by (simp add: run_step_def)
  next
    case (Some p)
    show ?thesis
    proof (cases p)
      case Line_97
      show ?thesis
      proof (cases "try_job jb q")
        case None
        then show ?thesis using a c Some Line_97 by (simp add: step_97)
      next
        case (Some b)
        obtain rj x where b: "b = (rj, x)" by (cases b)
        from try_job_frame[OF Some[unfolded b]] a c have "stop_event rj" by simp
        then show ?thesis using c \<open>thread q = Some p\<close> Line_97 Some b by (simp add: step_97)
      qed
    qed (use a c Some in \<open>simp_all add: step_simps\<close>)
  qed
qed

lemma run_steps_keep_stop_event:
  "stop_event (fst c) \<Longrightarrow> stop_event (fst (run_steps jb fls c))"
  by (induction fls arbitrary: c) (simp_all add: step_keeps_stop_event)

lemma run_trace_Cons: "\<exists>t. run_trace jb fls c = c # t"
  by (cases fls) simp_all

lemma falls_trace: "falls (map (\<lambda>c. stop_event (fst c)) (run_trace jb fls c)) = 0"
proof (induction fls arbitrary: c)
  case Nil
  show ?case by simp
next
  case (Cons fl fls)
  obtain t where t: "run_trace jb fls (run_step jb fl c) = run_step jb fl c # t"
    using run_trace_Cons by blast
  from Cons[of "run_step jb fl c"] t step_keeps_stop_event[of c jb fl]
  show ?case by auto
qed

lemma rises_trace:
  "rises (map (\<lambda>c. stop_event (fst c)) (run_trace jb fls c)) =
     (if \<not> stop_event (fst c) \<and> stop_event (fst (run_steps jb fls c)) then 1 else 0)"
proof (induction fls arbitrary: c)
  case Nil
  show ?case by simp
next
  case (Cons fl fls)
  obtain t where t: "run_trace jb fls (run_step jb fl c) = run_step jb fl c # t"
    using run_trace_Cons by blast
  from Cons[of "run_step jb fl c"] t step_keeps_stop_event[of c jb fl]
    run_steps_keep_stop_event[of "run_step jb fl c" jb fls]
  show ?case by auto
qed

section \<open>What a run records\<close>

lemma run_returned:
  assumes "jb (before_job r) = Returned res out"
  shows "(\<forall>fls. past_job (thread (fst (run_steps jb fls (run_entry r, env)))) \<longrightarrow>
            result (fst (run_steps jb fls (run_entry r, env))) = res \<and>
            output_text (fst (run_steps jb fls (run_entry r, env))) = out \<and>
            result_message (fst (run_steps jb fls (run_entry r, env))) =
              (if res = 0 then ''Success'' else ''FAIL ('' @ str_int res @ '')'')) \<and>
         (\<forall>fls. 8 \<le> length fls \<and> list_all (gate_open r) fls \<longrightarrow>
            thread (fst (run_steps jb fls (run_entry r, env))) = Some (Done None))"
proof (intro conjI allI impI)
  fix fls
  assume p: "past_job (thread (fst (run_steps jb fls (run_entry r, env))))"
  note T = try_job_Returned[of jb "before_job r" res out, OF assms]
  from stages_past_job[OF run_in_stages p] T
  show "result (fst (run_steps jb fls (run_entry r, env))) = res"
    and "output_text (fst (run_steps jb fls (run_entry r, env))) = out"
    and "result_message (fst (run_steps jb fls (run_entry r, env))) =
              (if res = 0 then ''Success'' else ''FAIL ('' @ str_int res @ '')'')"
    by auto
next
  fix fls
  assume "8 \<le> length fls \<and> list_all (gate_open r) fls"
  then show "thread (fst (run_steps jb fls (run_entry r, env))) = Some (Done None)"
    by (simp add: run_completes[OF try_job_Returned[of jb "before_job r" res out, OF assms]])
qed

lemma run_raised_result:
  assumes j: "jb (before_job r) = Raised e"
  shows "result (fst (run_steps jb fls (run_entry r, env))) = result r"
proof -
  obtain rj x where T: "try_job jb (before_job r) = Some (rj, x)" and res: "result rj = result r"
    using j by (cases "is_Exception e") (simp_all add: try_job_def before_job_def)
  from run_in_stages[of jb fls r env] res show ?thesis unfolding stages_Some[OF T]
    by (elim disjE) (simp_all add: before_job_def)
qed

section \<open>The runners of the tests\<close>

lemma str_int_examples: "str_int 1 = ''1''" "str_int 0 = ''0''" "str_int 255 = ''255''" "str_int (- 1) = ''-1''"
  by (simp_all add: str_int_def str_nat.simps digit_char_def)

lemma base_runner_simps:
  "name base_runner = ''base runner''" "start_gating_event base_runner = None"
  "start_callback base_runner = Some count_start" "stop_callback base_runner = Some count_stop"
  "thread base_runner = None" "stop_event base_runner = False" "running base_runner = False"
  by (simp_all add: base_runner_def init_def set_stop_callback_def set_start_callback_def)

lemma gate_open_base_runner: "gate_open (start base_runner) fl"
  by (simp add: gate_open_def start_simps base_runner_simps)

lemma dummy_job_base_runner:
  "dummy_job n (before_job (start base_runner)) = Returned n ''Output from base runner''"
  by (simp add: dummy_job_def before_job_def start_simps base_runner_simps)

lemma open_8: "8 \<le> length (replicate 8 none_set) \<and>
    list_all (gate_open base_runner) (replicate 8 none_set)"
  by (simp add: gate_open_def base_runner_simps list_all_length)

lemma gated_runner_simps:
  "name gated_runner = ''base runner''" "start_gating_event gated_runner = Some (Other_event 0)"
  "start_callback gated_runner = Some count_start" "stop_callback gated_runner = Some count_stop"
  by (simp_all add: gated_runner_def set_start_gating_event_def base_runner_simps)

section \<open>The exit status\<close>

lemma sublist_Success: "sublist ''Success'' ''Success''" by simp

lemma sublist_FAIL1: "\<not> sublist ''Success'' ''FAIL (1)''"
  by (simp add: sublist_Cons_right)

lemma exit_status_iff:
  "exit_status l = (if \<exists>info\<in>set l. \<not> sublist ''Success'' (fst (snd info)) then 1 else 0)"
proof -
  have "filter (\<lambda>(nm, msg, out). \<not> sublist ''Success'' msg) l = [] \<longleftrightarrow>
      (\<forall>info\<in>set l. sublist ''Success'' (fst (snd info)))"
    by (auto simp: filter_empty_conv)
  then show ?thesis
    by (auto simp: exit_status_def get_exit_return_code_def Let_def)
qed

lemma result_message_of_simps:
  "result_message_of 0 = ''Success''" "result_message_of 1 = ''FAIL (1)''"
  by (simp_all add: result_message_of_def str_int_examples)

section \<open>Every step of the interleaved execution keeps the invariant\<close>

lemma run_step_summary:
  assumes ok: "runner_ok nm code r" and jb: "\<forall>q. \<exists>out. jb q = Returned code out"
    and st: "run_step jb fl (r, l) = (r', l')"
  shows "runner_ok nm code r' \<and> (thread r' = None \<longleftrightarrow> thread r = None) \<and>
         (stop_event r \<longrightarrow> stop_event r') \<and>
         (if \<exists>x. thread r = Some (Line_109 x)
          then appended r' \<and> \<not> appended r \<and> (\<exists>out. l' = l @ [(nm, result_message_of code, out)])
          else l' = l \<and> (appended r' \<longleftrightarrow> appended r))"
proof (cases "thread r")
  case None
  with ok st show ?thesis by (simp add: run_step_def appended_def)
next
  case (Some p)
  from jb obtain out where out: "jb r = Returned code out" by blast
  note T = try_job_Returned[of jb r code out, OF out]
  show ?thesis
  proof (cases p)
    case Line_97
    with ok st Some T show ?thesis
      by (auto simp: step_97 runner_ok_def appended_def result_message_of_def)
  next
    case (Line_109 x)
    with ok st Some show ?thesis
      by (auto simp: step_109 runner_ok_def appended_def stopped_env_def call_when_runner_stops_def)
  next
    case Line_93
    with ok st Some show ?thesis
      by (auto simp: step_93 runner_ok_def appended_def started_env_def call_when_runner_starts_def)
  next
    case Line_89
    with ok st Some show ?thesis
      by (auto simp: step_89 runner_ok_def appended_def gate_open_def)
  qed (use ok st Some in \<open>auto simp: step_simps runner_ok_def appended_def\<close>)
qed

lemma runner_ok_Done:
  "runner_ok nm code r \<Longrightarrow> thread r \<noteq> None \<Longrightarrow> stop_event r \<Longrightarrow> \<exists>x. thread r = Some (Done x)"
  by (auto simp: runner_ok_def split: option.splits)

lemma runner_ok_start:
  "runner_ok nm code r \<Longrightarrow> runner_ok nm code (start r)"
  by (simp add: runner_ok_def start_simps)

lemma appended_start: "\<not> appended (start r)"
  by (simp add: appended_def start_simps)

lemma appended_None: "thread r = None \<Longrightarrow> \<not> appended r"
  by (simp add: appended_def)

lemma cli_inv_runner_step:
  assumes inv: "cli_inv names codes s" and i: "i < length names"
    and jb: "\<forall>q. \<exists>out. jobs i q = Returned (codes ! i) out"
  shows "cli_inv names codes (cli_runner_step jobs ext i s)"
proof -
  let ?r = "runners s ! i" and ?l = "result_info_list s"
  obtain r' l' where st: "run_step (jobs i) (cli_flags ext s) (?r, ?l) = (r', l')"
    by (cases "run_step (jobs i) (cli_flags ext s) (?r, ?l)")
  from inv have len: "length (runners s) = length names"
    and oks: "\<forall>j<length names. runner_ok (names ! j) (codes ! j) (runners s ! j)"
    and mo: "main_ok s" and ro: "results_ok names codes s"
    by (simp_all add: cli_inv_def)
  from oks i have ok: "runner_ok (names ! i) (codes ! i) ?r" by simp
  note sm = run_step_summary[OF ok jb st]
  let ?s' = "s\<lparr>runners := (runners s)[i := r'], result_info_list := l'\<rparr>"
  have s': "cli_runner_step jobs ext i s = ?s'"
    using i len st by (simp add: cli_runner_step_def)
  have nth: "\<And>j. j < length names \<Longrightarrow> (runners s)[i := r'] ! j = (if j = i then r' else runners s ! j)"
    using len by (simp add: nth_list_update)
  have oks': "\<forall>j<length names. runner_ok (names ! j) (codes ! j) (runners ?s' ! j)"
    using oks sm nth by simp
  have at109: "(\<exists>x. thread ?r = Some (Line_109 x)) \<Longrightarrow> \<not> stop_event ?r"
    using ok by (auto simp: runner_ok_def)
  have lsame: "stop_event ?r \<Longrightarrow> l' = ?l"
    using sm at109 by (auto split: if_splits)
  have mo': "main_ok ?s'"
  proof (cases "main s")
    case (Line_199 k)
    with mo sm len i show ?thesis by (auto simp: main_ok_def nth_list_update)
  next
    case (Line_203 k)
    with mo sm len i show ?thesis by (auto simp: main_ok_def nth_list_update)
  next
    case Line_206
    with mo sm len i show ?thesis by (auto simp: main_ok_def nth_list_update)
  next
    case (Exited c)
    with mo len i have "stop_event ?r" by (simp add: main_ok_def)
    with lsame have "l' = ?l" by simp
    with Exited mo sm len i show ?thesis by (auto simp: main_ok_def nth_list_update)
  qed
  from ro obtain order where d: "distinct order"
    and so: "set order = {j. j < length (runners s) \<and> appended (runners s ! j)}"
    and mp: "map (\<lambda>info. (fst info, fst (snd info))) ?l =
          map (\<lambda>i. (names ! i, result_message_of (codes ! i))) order"
    by (auto simp: results_ok_def)
  have ro': "results_ok names codes ?s'"
  proof (cases "\<exists>x. thread ?r = Some (Line_109 x)")
    case True
    with sm obtain out where a: "appended r'" "\<not> appended ?r"
      and l': "l' = ?l @ [(names ! i, result_message_of (codes ! i), out)]" by auto
    from a so have ni: "i \<notin> set order" by simp
    have "distinct (order @ [i])" using d ni by simp
    moreover have "set (order @ [i]) = {j. j < length (runners ?s') \<and> appended (runners ?s' ! j)}"
      using so a i len by (auto simp: nth_list_update)
    moreover have "map (\<lambda>info. (fst info, fst (snd info))) (result_info_list ?s') =
          map (\<lambda>i. (names ! i, result_message_of (codes ! i))) (order @ [i])"
      using mp l' by simp
    ultimately show ?thesis unfolding results_ok_def by blast
  next
    case False
    with sm have l': "l' = ?l" and a: "appended r' \<longleftrightarrow> appended ?r" by auto
    have "set order = {j. j < length (runners ?s') \<and> appended (runners ?s' ! j)}"
      using so a i len by (auto simp: nth_list_update)
    with d mp l' show ?thesis unfolding results_ok_def by auto
  qed
  from len oks' mo' ro' show ?thesis unfolding s' cli_inv_def by simp
qed

lemma cli_inv_main_step:
  assumes inv: "cli_inv names codes s"
  shows "cli_inv names codes (cli_main_step s)"
proof -
  from inv have len: "length (runners s) = length names"
    and oks: "\<forall>j<length names. runner_ok (names ! j) (codes ! j) (runners s ! j)"
    and mo: "main_ok s" and ro: "results_ok names codes s"
    by (simp_all add: cli_inv_def)
  show ?thesis
  proof (cases "main s")
    case (Line_199 k)
    show ?thesis
    proof (cases "k < length (runners s)")
      case True
      let ?s' = "s\<lparr>runners := (runners s)[k := start (runners s ! k)], main := Line_199 (k + 1)\<rparr>"
      have s': "cli_main_step s = ?s'" using Line_199 True by (simp add: cli_main_step_def)
      have tk: "thread (runners s ! k) = None" using mo Line_199 True by (simp add: main_ok_def)
      have oks': "\<forall>j<length names. runner_ok (names ! j) (codes ! j) (runners ?s' ! j)"
        using oks len True by (auto simp: nth_list_update runner_ok_start)
      have mo': "main_ok ?s'"
        using mo Line_199 True by (auto simp: main_ok_def nth_list_update start_simps)
      from ro obtain order where d: "distinct order"
        and so: "set order = {j. j < length (runners s) \<and> appended (runners s ! j)}"
        and mp: "map (\<lambda>info. (fst info, fst (snd info))) (result_info_list s) =
          map (\<lambda>i. (names ! i, result_message_of (codes ! i))) order"
        by (auto simp: results_ok_def)
      have "set order = {j. j < length (runners ?s') \<and> appended (runners ?s' ! j)}"
        using so True appended_None[OF tk] by (auto simp: nth_list_update appended_start)
      with d mp have ro': "results_ok names codes ?s'" unfolding results_ok_def by auto
      from len oks' mo' ro' show ?thesis unfolding s' cli_inv_def by simp
    next
      case False
      then have s': "cli_main_step s = s\<lparr>main := Line_203 0\<rparr>"
        using Line_199 by (simp add: cli_main_step_def)
      have "main_ok (s\<lparr>main := Line_203 0\<rparr>)"
        using mo Line_199 False by (auto simp: main_ok_def)
      with len oks ro show ?thesis unfolding s' cli_inv_def results_ok_def by simp
    qed
  next
    case (Line_203 k)
    show ?thesis
    proof (cases "k < length (runners s)")
      case True
      show ?thesis
      proof (cases "stop_event (runners s ! k)")
        case st: True
        then have s': "cli_main_step s = s\<lparr>main := Line_203 (k + 1)\<rparr>"
          using Line_203 True by (simp add: cli_main_step_def)
        have "main_ok (s\<lparr>main := Line_203 (k + 1)\<rparr>)"
          using mo Line_203 True st by (auto simp: main_ok_def less_Suc_eq)
        with len oks ro show ?thesis unfolding s' cli_inv_def results_ok_def by simp
      next
        case False
        then have "cli_main_step s = s" using Line_203 True by (simp add: cli_main_step_def)
        with inv show ?thesis by simp
      qed
    next
      case False
      then have s': "cli_main_step s = s\<lparr>main := Line_206\<rparr>"
        using Line_203 by (simp add: cli_main_step_def)
      have "main_ok (s\<lparr>main := Line_206\<rparr>)"
        using mo Line_203 False by (auto simp: main_ok_def)
      with len oks ro show ?thesis unfolding s' cli_inv_def results_ok_def by simp
    qed
  next
    case Line_206
    then have s': "cli_main_step s = s\<lparr>main := Exited (exit_status (result_info_list s))\<rparr>"
      by (simp add: cli_main_step_def)
    have "main_ok (s\<lparr>main := Exited (exit_status (result_info_list s))\<rparr>)"
      using mo Line_206 by (auto simp: main_ok_def)
    with len oks ro show ?thesis unfolding s' cli_inv_def results_ok_def by simp
  next
    case (Exited c)
    then have "cli_main_step s = s" by (simp add: cli_main_step_def)
    with inv show ?thesis by simp
  qed
qed

lemma cli_inv_step:
  assumes "cli_inv names codes s"
    and "\<forall>i<length names. \<forall>q. \<exists>out. jobs i q = Returned (codes ! i) out"
  shows "cli_inv names codes (cli_step jobs ext t s)"
proof (cases t)
  case Main_thread
  with assms(1) show ?thesis by (simp add: cli_step_def cli_inv_main_step)
next
  case (Runner_thread i)
  show ?thesis
  proof (cases "i < length names")
    case True
    with assms Runner_thread show ?thesis by (simp add: cli_step_def cli_inv_runner_step)
  next
    case False
    with assms(1) have "cli_runner_step jobs ext i s = s"
      by (simp add: cli_runner_step_def cli_inv_def)
    with assms(1) Runner_thread show ?thesis by (simp add: cli_step_def)
  qed
qed

lemma cli_inv_exec:
  assumes "\<forall>i<length names. \<forall>q. \<exists>out. jobs i q = Returned (codes ! i) out"
  shows "cli_inv names codes s \<Longrightarrow> cli_inv names codes (cli_exec jobs ext sched s)"
  by (induction sched arbitrary: s) (simp_all add: cli_inv_step assms)

lemma cli_inv_init:
  assumes "\<forall>r\<in>set rs. thread r = None \<and> start_gating_event r = None"
  shows "cli_inv (map name rs) codes (cli_init rs)"
proof -
  have "\<forall>i<length rs. runner_ok (name (rs ! i)) (codes ! i) (runners (cli_init rs) ! i)"
    using assms
    by (simp add: cli_init_def runner_ok_def set_stop_callback_def set_start_callback_def)
  moreover have "main_ok (cli_init rs)"
    using assms
    by (simp add: cli_init_def main_ok_def set_stop_callback_def set_start_callback_def)
  moreover have "results_ok (map name rs) codes (cli_init rs)"
    unfolding results_ok_def using assms
    by (intro exI[of _ "[]"])
      (simp add: cli_init_def appended_def set_stop_callback_def set_start_callback_def)
  ultimately show ?thesis by (simp add: cli_inv_def cli_init_def)
qed

lemma cli_exec_append:
  "cli_exec jobs ext (as @ bs) s = cli_exec jobs ext bs (cli_exec jobs ext as s)"
  by (induction as arbitrary: s) simp_all

lemma cli_runner_step_frame:
  "main (cli_runner_step jobs ext i s) = main s"
  "length (runners (cli_runner_step jobs ext i s)) = length (runners s)"
  "j \<noteq> i \<Longrightarrow> runners (cli_runner_step jobs ext i s) ! j = runners s ! j"
  by (auto simp: cli_runner_step_def split: prod.splits)

lemma cli_runner_step_nth:
  "i < length (runners s) \<Longrightarrow>
     runners (cli_runner_step jobs ext i s) ! i =
       fst (run_step (jobs i) (cli_flags ext s) (runners s ! i, result_info_list s))"
  by (auto simp: cli_runner_step_def split: prod.splits)

lemma cli_runner_step_stop_event:
  assumes "stop_event (runners s ! j)"
  shows "stop_event (runners (cli_runner_step jobs ext i s) ! j)"
proof (cases "j = i \<and> i < length (runners s)")
  case True
  with assms step_keeps_stop_event[of "(runners s ! i, result_info_list s)" "jobs i" "cli_flags ext s"]
  show ?thesis by (simp add: cli_runner_step_nth)
next
  case False
  show ?thesis
  proof (cases "j = i")
    case True
    with False have "cli_runner_step jobs ext i s = s" by (simp add: cli_runner_step_def)
    with assms show ?thesis by simp
  next
    case False
    with assms show ?thesis by (simp add: cli_runner_step_frame)
  qed
qed

lemma observed_step: "observed s \<Longrightarrow> observed (cli_step jobs ext t s)"
proof (cases t)
  case Main_thread
  assume "observed s"
  then show ?thesis using Main_thread
    by (cases "main s")
      (auto simp: observed_def cli_step_def cli_main_step_def less_Suc_eq)
next
  case (Runner_thread i)
  assume "observed s"
  then show ?thesis using Runner_thread
    by (cases "main s")
      (auto simp: observed_def cli_step_def cli_runner_step_frame cli_runner_step_stop_event)
qed

lemma observed_exec: "observed s \<Longrightarrow> observed (cli_exec jobs ext sched s)"
  by (induction sched arbitrary: s) (simp_all add: observed_step)

lemma observed_init: "observed (cli_init rs)"
  by (simp add: observed_def cli_init_def)

lemma cli_exit_results:
  assumes fresh: "\<forall>r\<in>set rs. thread r = None \<and> start_gating_event r = None"
    and jb: "\<forall>i<length rs. \<forall>q. \<exists>out. jobs i q = Returned (codes ! i) out"
    and ex: "main (cli_exec jobs ext sched (cli_init rs)) = Exited c"
  shows "c = exit_status (result_info_list (cli_exec jobs ext sched (cli_init rs))) \<and>
         (\<exists>order. distinct order \<and> set order = {0..<length rs} \<and>
            map (\<lambda>info. (fst info, fst (snd info)))
              (result_info_list (cli_exec jobs ext sched (cli_init rs))) =
            map (\<lambda>i. (name (rs ! i), result_message_of (codes ! i))) order)"
proof -
  let ?s = "cli_exec jobs ext sched (cli_init rs)"
  have jb': "\<forall>i<length (map name rs). \<forall>q. \<exists>out. jobs i q = Returned (codes ! i) out"
    using jb by simp
  have inv: "cli_inv (map name rs) codes ?s"
    by (rule cli_inv_exec[of "map name rs" jobs codes, OF jb' cli_inv_init[OF fresh]])
  then have len: "length (runners ?s) = length rs"
    and oks: "\<forall>i<length rs. runner_ok (name (rs ! i)) (codes ! i) (runners ?s ! i)"
    and mo: "main_ok ?s" and ro: "results_ok (map name rs) codes ?s"
    by (simp_all add: cli_inv_def)
  from mo ex len have all: "\<forall>i<length rs. thread (runners ?s ! i) \<noteq> None \<and> stop_event (runners ?s ! i)"
    and c: "c = exit_status (result_info_list ?s)"
    by (simp_all add: main_ok_def)
  have app: "\<forall>i<length rs. appended (runners ?s ! i)"
  proof (intro allI impI)
    fix i assume i: "i < length rs"
    with oks all runner_ok_Done[of "name (rs ! i)" "codes ! i" "runners ?s ! i"]
    obtain x where "thread (runners ?s ! i) = Some (Done x)" by blast
    then show "appended (runners ?s ! i)" by (simp add: appended_def)
  qed
  from ro obtain order where d: "distinct order"
    and so: "set order = {i. i < length (runners ?s) \<and> appended (runners ?s ! i)}"
    and mp: "map (\<lambda>info. (fst info, fst (snd info))) (result_info_list ?s) =
          map (\<lambda>i. (map name rs ! i, result_message_of (codes ! i))) order"
    by (auto simp: results_ok_def)
  from so app len have so': "set order = {0..<length rs}" by auto
  then have "map (\<lambda>i. (map name rs ! i, result_message_of (codes ! i))) order =
      map (\<lambda>i. (name (rs ! i), result_message_of (codes ! i))) order"
    by (intro map_cong) auto
  with d so' mp c show ?thesis by auto
qed

section \<open>Every execution can be brought to its end\<close>

lemma run_step_rank:
  assumes ok: "runner_ok nm code r" and jb: "\<forall>q. \<exists>out. jb q = Returned code out"
  shows "rank (thread (fst (run_step jb fl (r, l)))) = rank (thread r) - 1"
proof (cases "thread r")
  case None
  then show ?thesis by (simp add: run_step_def)
next
  case (Some p)
  from jb obtain out where out: "jb r = Returned code out" by blast
  note T = try_job_Returned[of jb r code out, OF out]
  from ok have g: "gate_open r fl" by (simp add: runner_ok_def gate_open_def)
  show ?thesis using Some T g by (cases p) (simp_all add: step_simps)
qed

lemma runner_rank_steps:
  assumes jb: "\<forall>q. \<exists>out. jobs i q = Returned (codes ! i) out" and i: "i < length names"
  shows "cli_inv names codes s \<Longrightarrow>
     rank (thread (runners (cli_exec jobs ext (replicate k (Runner_thread i)) s) ! i)) =
       rank (thread (runners s ! i)) - k"
proof (induction k arbitrary: s)
  case 0
  then show ?case by simp
next
  case (Suc k)
  let ?s' = "cli_runner_step jobs ext i s"
  from Suc.prems have len: "length (runners s) = length names"
    and ok: "runner_ok (names ! i) (codes ! i) (runners s ! i)"
    using i by (simp_all add: cli_inv_def)
  have inv': "cli_inv names codes ?s'"
    using cli_inv_runner_step[of names codes s i jobs ext, OF Suc.prems i jb] .
  have "rank (thread (runners ?s' ! i)) = rank (thread (runners s ! i)) - 1"
    using run_step_rank[of "names ! i" "codes ! i" "runners s ! i" "jobs i", OF ok jb] i len
    by (simp add: cli_runner_step_nth)
  with Suc.IH[OF inv'] show ?case by (simp add: cli_step_def)
qed

lemma runner_steps_frame:
  "main (cli_exec jobs ext (replicate k (Runner_thread i)) s) = main s"
  "stop_event (runners s ! j) \<Longrightarrow>
     stop_event (runners (cli_exec jobs ext (replicate k (Runner_thread i)) s) ! j)"
  by (induction k arbitrary: s)
    (simp_all add: cli_step_def cli_runner_step_frame cli_runner_step_stop_event)

lemma runner_finishes:
  assumes jb: "\<forall>i<length names. \<forall>q. \<exists>out. jobs i q = Returned (codes ! i) out"
    and i: "i < length names" and inv: "cli_inv names codes s"
    and th: "thread (runners s ! i) \<noteq> None"
  shows "stop_event (runners (cli_exec jobs ext (replicate 8 (Runner_thread i)) s) ! i)"
proof -
  let ?s' = "cli_exec jobs ext (replicate 8 (Runner_thread i)) s"
  from jb i have jbi: "\<forall>q. \<exists>out. jobs i q = Returned (codes ! i) out" by simp
  have inv': "cli_inv names codes ?s'"
    using cli_inv_exec[of names jobs codes s ext, OF jb inv] .
  then have ok: "runner_ok (names ! i) (codes ! i) (runners ?s' ! i)"
    using i by (simp add: cli_inv_def)
  have "rank (thread (runners s ! i)) \<le> 8"
    by (cases "thread (runners s ! i)" rule: rank.cases) simp_all
  with runner_rank_steps[of jobs i codes names s ext 8, OF jbi i inv]
  have r0: "rank (thread (runners ?s' ! i)) = 0" by simp
  have nn: "thread (runners ?s' ! i) \<noteq> None"
  proof -
    have "\<And>k s. cli_inv names codes s \<Longrightarrow> thread (runners s ! i) \<noteq> None \<Longrightarrow>
        thread (runners (cli_exec jobs ext (replicate k (Runner_thread i)) s) ! i) \<noteq> None"
    proof -
      fix k s
      show "cli_inv names codes s \<Longrightarrow> thread (runners s ! i) \<noteq> None \<Longrightarrow>
        thread (runners (cli_exec jobs ext (replicate k (Runner_thread i)) s) ! i) \<noteq> None"
      proof (induction k arbitrary: s)
        case 0
        then show ?case by simp
      next
        case (Suc k)
        from Suc.prems(1) i have ok: "runner_ok (names ! i) (codes ! i) (runners s ! i)"
          and len: "length (runners s) = length names" by (simp_all add: cli_inv_def)
        obtain r' l' where st: "run_step (jobs i) (cli_flags ext s)
            (runners s ! i, result_info_list s) = (r', l')"
          by (cases "run_step (jobs i) (cli_flags ext s) (runners s ! i, result_info_list s)")
        from run_step_summary[of "names ! i" "codes ! i" "runners s ! i" "jobs i", OF ok jbi st]
          Suc.prems(2) have "thread r' \<noteq> None" by simp
        then have "thread (runners (cli_runner_step jobs ext i s) ! i) \<noteq> None"
          using i len st by (simp add: cli_runner_step_nth)
        with Suc.IH[OF cli_inv_runner_step[of names codes s i jobs ext, OF Suc.prems(1) i jbi]]
        show ?case
          by (simp add: cli_step_def)
      qed
    qed
    from this[OF inv th] show ?thesis .
  qed
  from r0 nn obtain x where "thread (runners ?s' ! i) = Some (Done x)"
    by (cases "thread (runners ?s' ! i)" rule: rank.cases) simp_all
  with ok show ?thesis by (simp add: runner_ok_def)
qed

lemma main_steps_inv:
  "cli_inv names codes s \<Longrightarrow> cli_inv names codes (cli_exec jobs ext (replicate m Main_thread) s)"
  by (induction m arbitrary: s) (simp_all add: cli_step_def cli_inv_main_step)

lemma main_step_starts_left:
  "main_ok s \<Longrightarrow> starts_left (cli_main_step s) = starts_left s - 1"
  by (cases "main s") (auto simp: starts_left_def cli_main_step_def main_ok_def Suc_diff_Suc)

lemma main_steps_starts_left:
  "cli_inv names codes s \<Longrightarrow>
     starts_left (cli_exec jobs ext (replicate m Main_thread) s) = starts_left s - m"
proof (induction m arbitrary: s)
  case 0
  then show ?case by simp
next
  case (Suc m)
  from Suc.prems have "main_ok s" by (simp add: cli_inv_def)
  from main_step_starts_left[OF this] Suc.IH[OF cli_inv_main_step[OF Suc.prems]]
  show ?case by (simp add: cli_step_def)
qed

lemma main_step_waits_left:
  assumes "main_ok s" and "\<forall>i<length (runners s). stop_event (runners s ! i)" and "starts_left s = 0"
  shows "waits_left (cli_main_step s) = waits_left s - 1 \<and> starts_left (cli_main_step s) = 0 \<and>
         runners (cli_main_step s) = runners s"
  using assms
  by (cases "main s") (auto simp: waits_left_def starts_left_def cli_main_step_def main_ok_def)

lemma main_steps_waits_left:
  "cli_inv names codes s \<Longrightarrow> \<forall>i<length (runners s). stop_event (runners s ! i) \<Longrightarrow>
   starts_left s = 0 \<Longrightarrow>
     waits_left (cli_exec jobs ext (replicate m Main_thread) s) = waits_left s - m \<and>
     starts_left (cli_exec jobs ext (replicate m Main_thread) s) = 0"
proof (induction m arbitrary: s)
  case 0
  then show ?case by simp
next
  case (Suc m)
  from Suc.prems have mo: "main_ok s" by (simp add: cli_inv_def)
  note W = main_step_waits_left[OF mo Suc.prems(2,3)]
  from Suc.IH[OF cli_inv_main_step[OF Suc.prems(1)]] W Suc.prems(2)
  show ?case by (simp add: cli_step_def)
qed

lemma starts_left_main: "main t = main s \<Longrightarrow> starts_left s = 0 \<Longrightarrow> starts_left t = 0"
  by (cases "main s") (simp_all add: starts_left_def)

lemma exited_iff: "(\<exists>c. main s = Exited c) \<longleftrightarrow> starts_left s = 0 \<and> waits_left s = 0"
  by (cases "main s") (simp_all add: starts_left_def waits_left_def)

lemma in_order_schedule_exits:
  assumes jb: "\<forall>i<length names. \<forall>q. \<exists>out. jobs i q = Returned (codes ! i) out"
    and n: "length names = 3" and inv: "cli_inv names codes s"
  shows "\<exists>c. main (cli_exec jobs ext in_order_schedule s) = Exited c"
proof -
  define s1 where "s1 = cli_exec jobs ext (replicate 4 Main_thread) s"
  define s2 where "s2 = cli_exec jobs ext (replicate 8 (Runner_thread 0)) s1"
  define s3 where "s3 = cli_exec jobs ext (replicate 8 (Runner_thread 1)) s2"
  define s4 where "s4 = cli_exec jobs ext (replicate 8 (Runner_thread 2)) s3"
  define s5 where "s5 = cli_exec jobs ext (replicate 5 Main_thread) s4"
  have s5: "cli_exec jobs ext in_order_schedule s = s5"
    by (simp only: in_order_schedule_def cli_exec_append s1_def s2_def s3_def s4_def s5_def)
  have i1: "cli_inv names codes s1" unfolding s1_def by (rule main_steps_inv[OF inv])
  have i2: "cli_inv names codes s2" unfolding s2_def
    by (rule cli_inv_exec[of names jobs codes, OF jb i1])
  have i3: "cli_inv names codes s3" unfolding s3_def
    by (rule cli_inv_exec[of names jobs codes, OF jb i2])
  have i4: "cli_inv names codes s4" unfolding s4_def
    by (rule cli_inv_exec[of names jobs codes, OF jb i3])
  from inv n have "starts_left s \<le> 4"
    by (cases "main s") (auto simp: starts_left_def cli_inv_def)
  with main_steps_starts_left[OF inv, of jobs ext 4] have st1: "starts_left s1 = 0"
    by (simp add: s1_def)
  have m2: "main s2 = main s1" "main s3 = main s2" "main s4 = main s3"
    by (simp_all add: s2_def s3_def s4_def runner_steps_frame)
  from st1 m2 have ms: "main s2 = main s1" "main s3 = main s1" "main s4 = main s1" by simp_all
  have th: "\<And>t i. cli_inv names codes t \<Longrightarrow> main t = main s1 \<Longrightarrow> i < 3 \<Longrightarrow>
      thread (runners t ! i) \<noteq> None"
  proof -
    fix t i
    assume a: "cli_inv names codes t" "main t = main s1" "i < (3::nat)"
    from st1 a(2) have "starts_left t = 0" by (rule starts_left_main[rotated])
    with a(1,3) n show "thread (runners t ! i) \<noteq> None"
      by (cases "main t") (auto simp: cli_inv_def main_ok_def starts_left_def)
  qed
  have e0: "stop_event (runners s2 ! 0)" unfolding s2_def
    by (rule runner_finishes[OF jb _ i1]) (simp_all add: n th[OF i1])
  have e1: "stop_event (runners s3 ! 1)" unfolding s3_def
    by (rule runner_finishes[OF jb _ i2]) (simp_all add: n th[OF i2 ms(1)])
  have e2: "stop_event (runners s4 ! 2)" unfolding s4_def
    by (rule runner_finishes[OF jb _ i3]) (simp_all add: n th[OF i3 ms(2)])
  have e0': "stop_event (runners s4 ! 0)" unfolding s4_def s3_def
    by (intro runner_steps_frame(2) e0)
  have e1': "stop_event (runners s4 ! 1)" unfolding s4_def
    by (intro runner_steps_frame(2) e1)
  have len4: "length (runners s4) = 3" using i4 n by (simp add: cli_inv_def)
  have all: "\<forall>i<length (runners s4). stop_event (runners s4 ! i)"
    using e0' e1' e2 len4 by (auto simp: less_Suc_eq numeral_3_eq_3 numeral_2_eq_2)
  have st4: "starts_left s4 = 0" using ms(3) st1 by (rule starts_left_main)
  have "waits_left s4 \<le> 5"
    using len4 by (cases "main s4") (simp_all add: waits_left_def)
  with main_steps_waits_left[OF i4 all st4, of jobs ext 5]
  have "waits_left s5 = 0 \<and> starts_left s5 = 0" by (simp add: s5_def)
  then show ?thesis unfolding s5 by (simp add: exited_iff)
qed

lemma upt3: "{0..<length [r0, r1, r2]} = {0, 1, (2::nat)}"
proof -
  have "{0..<Suc (Suc (Suc 0))} = {0, Suc 0, Suc (Suc 0)}"
    by (simp only: atLeastLessThanSuc atLeastLessThan_empty_iff2) auto
  then show ?thesis by (simp add: numeral_2_eq_2)
qed

lemma card3: "card {0, 1, (2::nat)} = 3"
  by simp

lemma three_runners_fresh:
  "thread (init ''a'') = None \<and> start_gating_event (init ''a'') = None"
  "thread (init ''b'') = None \<and> start_gating_event (init ''b'') = None"
  "thread (init ''c'') = None \<and> start_gating_event (init ''c'') = None"
  by (simp_all add: init_def)

lemma jobs_0_1_0_return:
  "\<forall>q. \<exists>out. jobs_0_1_0 0 q = Returned 0 out" "\<forall>q. \<exists>out. jobs_0_1_0 1 q = Returned 1 out"
  "\<forall>q. \<exists>out. jobs_0_1_0 2 q = Returned 0 out"
  by (simp_all add: jobs_0_1_0_def dummy_job_def)

section \<open>The result of a job that returns\<close>

text \<open>
  C1. In a run whose job body returns the result code \<open>res\<close> and the output \<open>out\<close>, once the
  thread has reached the \<^verbatim>\<open>finally\<close> block the runner holds \<open>result = res\<close>,
  \<open>output = out\<close>, and the result message \<^verbatim>\<open>Success\<close> when \<open>res = 0\<close> and
  \<^verbatim>\<open>FAIL (res)\<close> otherwise, \<open>res\<close> written as \<^verbatim>\<open>str\<close> writes it. With the start gate
  open, the run is over after eight steps and no exception leaves it.
\<close>

theorem normal_return_recorded:
  assumes "jb (before_job r) = Returned res out"
  shows "(\<forall>fls. past_job (thread (fst (run_steps jb fls (run_entry r, env)))) \<longrightarrow>
            result (fst (run_steps jb fls (run_entry r, env))) = res \<and>
            output_text (fst (run_steps jb fls (run_entry r, env))) = out \<and>
            result_message (fst (run_steps jb fls (run_entry r, env))) =
              (if res = 0 then ''Success'' else ''FAIL ('' @ str_int res @ '')'')) \<and>
         (\<forall>fls. 8 \<le> length fls \<and> list_all (gate_open r) fls \<longrightarrow>
            thread (fst (run_steps jb fls (run_entry r, env))) = Some (Done None))"
  using assms by (rule run_returned)

theorem normal_return_recorded_witness:
  "dummy_job 255 (before_job (start base_runner)) = Returned 255 ''Output from base runner'' \<and>
   past_job (thread (fst (run_steps (dummy_job 255) (replicate 8 none_set) (start base_runner, (0, 0))))) \<and>
   result (fst (run_steps (dummy_job 255) (replicate 8 none_set) (start base_runner, (0, 0)))) = 255 \<and>
   output_text (fst (run_steps (dummy_job 255) (replicate 8 none_set) (start base_runner, (0, 0)))) = ''Output from base runner'' \<and>
   result_message (fst (run_steps (dummy_job 255) (replicate 8 none_set) (start base_runner, (0, 0)))) = ''FAIL (255)''"
proof -
  let ?c = "run_steps (dummy_job 255) (replicate 8 none_set) (start base_runner, (0, 0))"
  have j: "dummy_job 255 (before_job (start base_runner)) = Returned 255 ''Output from base runner''"
    by (simp add: dummy_job_def before_job_def start_simps base_runner_simps)
  have g: "8 \<le> length (replicate 8 none_set) \<and> list_all (gate_open (start base_runner)) (replicate 8 none_set)"
    by (simp add: gate_open_base_runner list_all_length)
  note N = normal_return_recorded[of "dummy_job 255" "start base_runner" 255
      "''Output from base runner''" "(0, 0)", OF j, unfolded run_entry_start]
  from N g have d: "thread (fst ?c) = Some (Done None)"
    by blast
  then have p: "past_job (thread (fst ?c))"
    by simp
  with N have "result (fst ?c) = 255 \<and> output_text (fst ?c) = ''Output from base runner'' \<and>
      result_message (fst ?c) = (if (255::int) = 0 then ''Success'' else ''FAIL ('' @ str_int 255 @ '')'')"
    by blast
  with j p show ?thesis by (simp add: str_int_examples del: replicate.simps run_steps.simps)
qed

section \<open>A job that raises\<close>

text \<open>
  The path of the handler that is taken: when the job body raises an instance of
  \<^verbatim>\<open>Exception\<close>, the result message becomes \<^verbatim>\<open>FAIL (Exception)\<close>, the output becomes the
  output the runner had, then a newline, the name of the exception's type, a colon and a
  space, and the text of the exception; no exception leaves \<^verbatim>\<open>run\<close>, and with the start
  gate open the run is over after eight steps.
\<close>

lemma caught_exception_recorded:
  assumes j: "jb (before_job r) = Raised e" and ex: "is_Exception e"
  shows "(\<forall>fls. past_job (thread (fst (run_steps jb fls (run_entry r, env)))) \<longrightarrow>
            result_message (fst (run_steps jb fls (run_entry r, env))) = ''FAIL (Exception)'' \<and>
            output_text (fst (run_steps jb fls (run_entry r, env))) =
              output_text r @ [CHR 0x0A] @ type_name e @ '': '' @ str_of e) \<and>
         (\<forall>fls x. thread (fst (run_steps jb fls (run_entry r, env))) \<noteq> Some (Done (Some x))) \<and>
         (\<forall>fls. 8 \<le> length fls \<and> list_all (gate_open r) fls \<longrightarrow>
            thread (fst (run_steps jb fls (run_entry r, env))) = Some (Done None))"
proof -
  note T = try_job_caught[of jb "before_job r" e, OF j ex]
  have out: "output_text (before_job r) = output_text r" by (simp add: before_job_def)
  show ?thesis
  proof (intro conjI allI impI)
    fix fls
    assume p: "past_job (thread (fst (run_steps jb fls (run_entry r, env))))"
    from stages_past_job[OF run_in_stages p] T out
    show "result_message (fst (run_steps jb fls (run_entry r, env))) = ''FAIL (Exception)''"
      and "output_text (fst (run_steps jb fls (run_entry r, env))) =
              output_text r @ [CHR 0x0A] @ type_name e @ '': '' @ str_of e"
      by auto
  next
    fix fls x
    show "thread (fst (run_steps jb fls (run_entry r, env))) \<noteq> Some (Done (Some x))"
    proof
      assume d: "thread (fst (run_steps jb fls (run_entry r, env))) = Some (Done (Some x))"
      then have "past_job (thread (fst (run_steps jb fls (run_entry r, env))))" by simp
      from stages_past_job[OF run_in_stages this] T d show False by auto
    qed
  next
    fix fls
    assume "8 \<le> length fls \<and> list_all (gate_open r) fls"
    then show "thread (fst (run_steps jb fls (run_entry r, env))) = Some (Done None)"
      by (simp add: run_completes[OF T])
  qed
qed

lemma caught_exception_recorded_example:
  "type_error_job (before_job base_runner) =
     Raised \<lparr>type_name = ''TypeError'', str_of = ''must be str, not NoneType'', is_Exception = True\<rparr> \<and>
   is_Exception \<lparr>type_name = ''TypeError'', str_of = ''must be str, not NoneType'', is_Exception = True\<rparr> \<and>
   thread (fst (run_steps type_error_job (replicate 8 none_set) (run_entry base_runner, (0, 0)))) =
     Some (Done None) \<and>
   result_message (fst (run_steps type_error_job (replicate 8 none_set) (run_entry base_runner, (0, 0)))) =
     ''FAIL (Exception)'' \<and>
   output_text (fst (run_steps type_error_job (replicate 8 none_set) (run_entry base_runner, (0, 0)))) =
     [CHR 0x0A] @ ''TypeError: must be str, not NoneType''"
proof -
  let ?e = "\<lparr>type_name = ''TypeError'', str_of = ''must be str, not NoneType'', is_Exception = True\<rparr>"
  let ?c = "run_steps type_error_job (replicate 8 none_set) (run_entry base_runner, (0, 0))"
  have j: "type_error_job (before_job base_runner) = Raised ?e"
    by (simp add: type_error_job_def)
  have ex: "is_Exception ?e" by simp
  have g: "8 \<le> length (replicate 8 none_set) \<and> list_all (gate_open base_runner) (replicate 8 none_set)"
    by (simp add: gate_open_def base_runner_simps list_all_length)
  have o: "output_text base_runner = []"
    by (simp add: base_runner_def init_def set_stop_callback_def set_start_callback_def)
  note N = caught_exception_recorded[of type_error_job base_runner ?e "(0, 0)", OF j ex]
  from N g have d: "thread (fst ?c) = Some (Done None)" by blast
  then have p: "past_job (thread (fst ?c))" by simp
  with N have "result_message (fst ?c) = ''FAIL (Exception)'' \<and>
      output_text (fst ?c) = output_text base_runner @ [CHR 0x0A] @ type_name ?e @ '': '' @ str_of ?e"
    by blast
  with j d o show ?thesis by (simp del: replicate.simps run_steps.simps)
qed

text \<open>
  C2. The claim: whenever the job body raises, the exception does not leave \<^verbatim>\<open>run\<close>, the
  result message becomes \<^verbatim>\<open>FAIL (Exception)\<close> and the output gets the name and the text
  of the exception; the comment of the handler says the same, \<^verbatim>\<open>Catch all exceptions in
  the child thread\<close>, so that they are reported to the parent thread. The code misses the
  exceptions that are not instances of \<^verbatim>\<open>Exception\<close>. With a job body that calls
  \<^verbatim>\<open>sys.exit(3)\<close>, in a run launched by \<^verbatim>\<open>start\<close> on the runner of the tests: the handler
  does not match, the \<^verbatim>\<open>finally\<close> block runs, \<^verbatim>\<open>SystemExit\<close> leaves \<^verbatim>\<open>run\<close>, and the result
  message and the output are still empty and the result still \<open>-1\<close>: nothing of the
  exception is reported.
\<close>

theorem sys_exit_not_reported:
  "thread (fst (run_steps sys_exit_job (replicate 8 all_set) (start base_runner, (0, 0)))) =
     Some (Done (Some \<lparr>type_name = ''SystemExit'', str_of = ''3'', is_Exception = False\<rparr>)) \<and>
   result_message (fst (run_steps sys_exit_job (replicate 8 all_set) (start base_runner, (0, 0)))) = [] \<and>
   output_text (fst (run_steps sys_exit_job (replicate 8 all_set) (start base_runner, (0, 0)))) = [] \<and>
   result (fst (run_steps sys_exit_job (replicate 8 all_set) (start base_runner, (0, 0)))) = - 1 \<and>
   stop_event (fst (run_steps sys_exit_job (replicate 8 all_set) (start base_runner, (0, 0))))"
proof -
  have T: "try_job sys_exit_job (before_job (start base_runner)) =
      Some (before_job (start base_runner),
        Some \<lparr>type_name = ''SystemExit'', str_of = ''3'', is_Exception = False\<rparr>)"
    by (simp add: try_job_def sys_exit_job_def)
  have "run_steps sys_exit_job (replicate 8 all_set) (run_entry (start base_runner), (0, 0)) =
     ((before_job (start base_runner))\<lparr>running := False, stop_event := True,
         thread := Some (Done (Some \<lparr>type_name = ''SystemExit'', str_of = ''3'', is_Exception = False\<rparr>))\<rparr>,
      stopped_env (before_job (start base_runner)) (started_env (start base_runner) (0, 0)))"
    by (rule run_completes[OF T]) (simp_all add: list_all_length gate_open_base_runner)
  then show ?thesis
    by (simp add: run_entry_start before_job_def start_simps del: replicate.simps run_steps.simps)
qed

section \<open>The end of a run\<close>

text \<open>
  C3. In a run launched by \<^verbatim>\<open>start\<close>, whatever the job body did: line 108 sets
  \<open>running\<close> to false and goes to the stop callback; when the stop callback is about to be
  called (line 109) \<open>running\<close> is false and the stop event is not set, and the call is
  made with the name, the result message and the output; when it has returned (line 111)
  the stop event is still not set, and the next step sets it; when the run is over the
  stop event is set. With the start gate open and a job body that comes back, returning
  or raising, the run is over after eight steps.
\<close>

theorem end_of_run_order:
  "(thread (fst (run_steps jb fls (start r, env))) = Some (Line_108 x) \<longrightarrow>
      run_step jb fl (run_steps jb fls (start r, env)) =
        ((fst (run_steps jb fls (start r, env)))\<lparr>running := False, thread := Some (Line_109 x)\<rparr>,
         snd (run_steps jb fls (start r, env)))) \<and>
   (thread (fst (run_steps jb fls (start r, env))) = Some (Line_109 x) \<longrightarrow>
      \<not> running (fst (run_steps jb fls (start r, env))) \<and>
      \<not> stop_event (fst (run_steps jb fls (start r, env))) \<and>
      name (fst (run_steps jb fls (start r, env))) = name r \<and>
      run_step jb fl (run_steps jb fls (start r, env)) =
        ((fst (run_steps jb fls (start r, env)))\<lparr>thread := Some (Line_111 x)\<rparr>,
         stopped_env (fst (run_steps jb fls (start r, env))) (snd (run_steps jb fls (start r, env))))) \<and>
   (thread (fst (run_steps jb fls (start r, env))) = Some (Line_111 x) \<longrightarrow>
      \<not> running (fst (run_steps jb fls (start r, env))) \<and>
      \<not> stop_event (fst (run_steps jb fls (start r, env))) \<and>
      snd (run_steps jb fls (start r, env)) =
        stopped_env (fst (run_steps jb fls (start r, env))) (started_env r env) \<and>
      run_step jb fl (run_steps jb fls (start r, env)) =
        ((fst (run_steps jb fls (start r, env)))\<lparr>stop_event := True, thread := Some (Done x)\<rparr>,
         snd (run_steps jb fls (start r, env)))) \<and>
   (thread (fst (run_steps jb fls (start r, env))) = Some (Done x) \<longrightarrow>
      \<not> running (fst (run_steps jb fls (start r, env))) \<and>
      stop_event (fst (run_steps jb fls (start r, env))) \<and>
      snd (run_steps jb fls (start r, env)) =
        stopped_env (fst (run_steps jb fls (start r, env))) (started_env r env)) \<and>
   (jb (before_job (start r)) \<noteq> Never_returns \<and> 8 \<le> length fls \<and> list_all (gate_open r) fls \<longrightarrow>
      (\<exists>y. thread (fst (run_steps jb fls (start r, env))) = Some (Done y)))"
proof -
  define c where "c = run_steps jb fls (start r, env)"
  have st: "c \<in> set (stages jb (start r) env)"
    unfolding c_def using run_in_stages[of jb fls "start r" env] by (simp add: run_entry_start)
  note F = stages_finally[OF st, of x, unfolded start_simps started_env_simps]
  have c: "c = (fst c, snd c)" by simp
  have s108: "thread (fst c) = Some (Line_108 x) \<Longrightarrow>
      run_step jb fl c = ((fst c)\<lparr>running := False, thread := Some (Line_109 x)\<rparr>, snd c)"
    using step_108[of "fst c" x jb fl "snd c"] by simp
  have s109: "thread (fst c) = Some (Line_109 x) \<Longrightarrow>
      run_step jb fl c = ((fst c)\<lparr>thread := Some (Line_111 x)\<rparr>, stopped_env (fst c) (snd c))"
    using step_109[of "fst c" x jb fl "snd c"] by simp
  have s111: "thread (fst c) = Some (Line_111 x) \<Longrightarrow>
      run_step jb fl c = ((fst c)\<lparr>stop_event := True, thread := Some (Done x)\<rparr>, snd c)"
    using step_111[of "fst c" x jb fl "snd c"] by simp
  have live: "jb (before_job (start r)) \<noteq> Never_returns \<Longrightarrow> 8 \<le> length fls \<Longrightarrow>
      list_all (gate_open r) fls \<Longrightarrow> \<exists>y. thread (fst c) = Some (Done y)"
    unfolding c_def using run_ends[of jb "start r" fls env]
    by (simp add: run_entry_start gate_open_simps)
  from F s108 s109 s111 live show ?thesis
    unfolding c_def[symmetric] by blast
qed

theorem end_of_run_order_witness:
  "thread (fst (run_steps (dummy_job 0)
      [none_set, none_set, none_set, none_set, none_set, none_set] (start base_runner, (0, 0)))) =
     Some (Line_109 None) \<and>
   \<not> running (fst (run_steps (dummy_job 0)
      [none_set, none_set, none_set, none_set, none_set, none_set] (start base_runner, (0, 0)))) \<and>
   \<not> stop_event (fst (run_steps (dummy_job 0)
      [none_set, none_set, none_set, none_set, none_set, none_set] (start base_runner, (0, 0)))) \<and>
   snd (run_steps (dummy_job 0)
      [none_set, none_set, none_set, none_set, none_set, none_set] (start base_runner, (0, 0))) = (1, 0) \<and>
   snd (run_step (dummy_job 0) none_set (run_steps (dummy_job 0)
      [none_set, none_set, none_set, none_set, none_set, none_set] (start base_runner, (0, 0)))) = (1, 1) \<and>
   thread (fst (run_steps (dummy_job 0)
      [none_set, none_set, none_set, none_set, none_set, none_set, none_set]
      (start base_runner, (0, 0)))) = Some (Line_111 None) \<and>
   \<not> stop_event (fst (run_steps (dummy_job 0)
      [none_set, none_set, none_set, none_set, none_set, none_set, none_set]
      (start base_runner, (0, 0)))) \<and>
   thread (fst (run_steps (dummy_job 0) (replicate 8 none_set) (start base_runner, (0, 0)))) =
     Some (Done None) \<and>
   stop_event (fst (run_steps (dummy_job 0) (replicate 8 none_set) (start base_runner, (0, 0)))) \<and>
   \<not> running (fst (run_steps (dummy_job 0) (replicate 8 none_set) (start base_runner, (0, 0))))"
proof -
  let ?c6 = "run_steps (dummy_job 0)
      [none_set, none_set, none_set, none_set, none_set, none_set] (start base_runner, (0, 0))"
  let ?c7 = "run_steps (dummy_job 0)
      [none_set, none_set, none_set, none_set, none_set, none_set, none_set]
      (start base_runner, (0, 0))"
  let ?c8 = "run_steps (dummy_job 0) (replicate 8 none_set) (start base_runner, (0, 0))"
  note T = try_job_Returned[of "dummy_job 0" "before_job (start base_runner)" 0
      "''Output from base runner''", OF dummy_job_base_runner]
  note P = run_prefixes[OF T gate_open_base_runner, unfolded run_entry_start]
  have e1: "started_env (start base_runner) (0, 0) = (1, 0)"
    by (simp add: started_env_def start_simps base_runner_simps count_start_def)
  have t6: "thread (fst ?c6) = Some (Line_109 None)" and s6: "snd ?c6 = (1, 0)"
    and sc6: "stop_callback (fst ?c6) = Some count_stop"
    unfolding P(3) by (simp_all add: before_job_def start_simps base_runner_simps e1)
  have t7: "thread (fst ?c7) = Some (Line_111 None)"
    unfolding P(4) by simp
  have t8: "thread (fst ?c8) = Some (Done None)"
    using run_completes[OF T, of "replicate 8 none_set" "(0, 0)"] open_8
    by (simp add: run_entry_start gate_open_simps del: replicate.simps run_steps.simps)
  note N6 = end_of_run_order[of "dummy_job 0"
      "[none_set, none_set, none_set, none_set, none_set, none_set]" base_runner "(0, 0)" None none_set]
  note N7 = end_of_run_order[of "dummy_job 0"
      "[none_set, none_set, none_set, none_set, none_set, none_set, none_set]" base_runner "(0, 0)"
      None none_set]
  note N8 = end_of_run_order[of "dummy_job 0" "replicate 8 none_set" base_runner "(0, 0)"
      None none_set]
  from N6 t6 have a6: "\<not> running (fst ?c6) \<and> \<not> stop_event (fst ?c6) \<and>
      run_step (dummy_job 0) none_set ?c6 =
        ((fst ?c6)\<lparr>thread := Some (Line_111 None)\<rparr>, stopped_env (fst ?c6) (snd ?c6))"
    by blast
  then have b6: "snd (run_step (dummy_job 0) none_set ?c6) = (1, 1)"
    by (simp add: s6 stopped_env_def sc6 count_stop_def del: run_steps.simps)
  from N7 t7 have a7: "\<not> stop_event (fst ?c7)" by blast
  from N8 t8 have a8: "stop_event (fst ?c8) \<and> \<not> running (fst ?c8)" by blast
  from t6 a6 s6 b6 t7 a7 t8 a8 show ?thesis by blast
qed

section \<open>The start gate\<close>

text \<open>
  C4. In a run launched by \<^verbatim>\<open>start\<close> on a runner gated on the event \<open>g\<close>: as long as \<open>g\<close>
  is not set at any step, the thread stays at the wait with \<open>running\<close> false, the owner's
  state untouched (no callback has been called) and the job body not entered. Once \<open>g\<close> is
  set at a step, \<open>running\<close> becomes true, then the start callback is called with the name,
  then the job body is entered. A runner with no gate reaches the job body in four steps
  whatever the events. In every run, \<open>running\<close> is true and the start callback not yet
  called at line 93, the job body finds \<open>running\<close> true and the start callback called
  once, and afterwards the owner's state is that one, or that one after the stop
  callback: the start callback is not called again.
\<close>

theorem start_gate_protocol:
  "(start_gating_event r = Some g \<and> list_all (\<lambda>fl. \<not> fl g) fls \<longrightarrow>
      run_steps jb fls (start r, env) =
        (if fls = [] then (start r, env)
         else ((start r)\<lparr>running := False, thread := Some Line_89\<rparr>, env))) \<and>
   (start_gating_event r = Some g \<and> fls \<noteq> [] \<and> list_all (\<lambda>fl. \<not> fl g) fls \<and> f1 g \<longrightarrow>
      run_steps jb (fls @ [f1]) (start r, env) =
        ((start r)\<lparr>running := False, thread := Some Line_92\<rparr>, env) \<and>
      run_steps jb (fls @ [f1, f2]) (start r, env) =
        ((start r)\<lparr>running := True, thread := Some Line_93\<rparr>, env) \<and>
      run_steps jb (fls @ [f1, f2, f3]) (start r, env) =
        (before_job (start r), started_env r env)) \<and>
   (start_gating_event r = None \<longrightarrow>
      run_steps jb [f1, f2, f3, f4] (start r, env) = (before_job (start r), started_env r env)) \<and>
   (thread (fst (run_steps jb fls (start r, env))) = Some Line_93 \<longrightarrow>
      running (fst (run_steps jb fls (start r, env))) \<and> snd (run_steps jb fls (start r, env)) = env) \<and>
   (thread (fst (run_steps jb fls (start r, env))) = Some Line_97 \<longrightarrow>
      fst (run_steps jb fls (start r, env)) = before_job (start r) \<and>
      running (fst (run_steps jb fls (start r, env))) \<and>
      snd (run_steps jb fls (start r, env)) = started_env r env) \<and>
   (past_job (thread (fst (run_steps jb fls (start r, env)))) \<longrightarrow>
      snd (run_steps jb fls (start r, env)) = started_env r env \<or>
      snd (run_steps jb fls (start r, env)) =
        stopped_env (fst (run_steps jb fls (start r, env))) (started_env r env))"
proof -
  define c where "c = run_steps jb fls (start r, env)"
  have st: "c \<in> set (stages jb (start r) env)"
    unfolding c_def using run_in_stages[of jb fls "start r" env] by (simp add: run_entry_start)
  note B = stages_before_job[OF st, unfolded started_env_simps]
  have rb: "running (before_job (start r))" by (simp add: before_job_def)
  have closed: "start_gating_event r = Some g \<Longrightarrow> list_all (\<lambda>fl. \<not> fl g) fls \<Longrightarrow>
      c = (if fls = [] then (start r, env)
           else ((start r)\<lparr>running := False, thread := Some Line_89\<rparr>, env))"
    unfolding c_def using gate_closed[of "start r" g fls jb env]
    by (simp add: run_entry_start start_simps)
  have opened: "run_steps jb (fls @ [f1]) (start r, env) =
        ((start r)\<lparr>running := False, thread := Some Line_92\<rparr>, env) \<and>
      run_steps jb (fls @ [f1, f2]) (start r, env) =
        ((start r)\<lparr>running := True, thread := Some Line_93\<rparr>, env) \<and>
      run_steps jb (fls @ [f1, f2, f3]) (start r, env) =
        (before_job (start r), started_env r env)"
    if h: "start_gating_event r = Some g" "fls \<noteq> []" "list_all (\<lambda>fl. \<not> fl g) fls" "f1 g"
  proof -
    from closed h have "c = ((start r)\<lparr>running := False, thread := Some Line_89\<rparr>, env)" by simp
    moreover have "gate_open (start r) f1" using h by (simp add: gate_open_def start_simps)
    ultimately show ?thesis unfolding c_def
      by (simp add: run_steps_append step_simps gate_open_simps started_env_simps before_job_def)
  qed
  have ungated: "start_gating_event r = None \<Longrightarrow>
      run_steps jb [f1, f2, f3, f4] (start r, env) = (before_job (start r), started_env r env)"
    using run_to_job(3)[of "start r" f2 jb f1 f3 f4 env]
    by (simp add: run_entry_start gate_open_def start_simps started_env_simps)
  have at_job: "thread (fst c) = Some Line_97 \<Longrightarrow>
      fst c = before_job (start r) \<and> running (fst c) \<and> snd c = started_env r env"
    using B rb by simp
  from B closed opened ungated at_job show ?thesis
    unfolding c_def[symmetric] by blast
qed

theorem start_gate_protocol_witness:
  "start_gating_event gated_runner = Some (Other_event 0) \<and>
   \<not> none_set (Other_event 0) \<and> all_set (Other_event 0) \<and>
   thread (fst (run_steps (dummy_job 0) [none_set, none_set, none_set] (start gated_runner, (0, 0)))) =
     Some Line_89 \<and>
   \<not> running (fst (run_steps (dummy_job 0) [none_set, none_set, none_set] (start gated_runner, (0, 0)))) \<and>
   snd (run_steps (dummy_job 0) [none_set, none_set, none_set] (start gated_runner, (0, 0))) = (0, 0) \<and>
   thread (fst (run_steps (dummy_job 0)
     ([none_set, none_set, none_set] @ [all_set, none_set, none_set]) (start gated_runner, (0, 0)))) =
     Some Line_97 \<and>
   running (fst (run_steps (dummy_job 0)
     ([none_set, none_set, none_set] @ [all_set, none_set, none_set]) (start gated_runner, (0, 0)))) \<and>
   snd (run_steps (dummy_job 0)
     ([none_set, none_set, none_set] @ [all_set, none_set, none_set]) (start gated_runner, (0, 0))) =
     (1, 0)"
proof -
  let ?w = "[none_set, none_set, none_set]"
  have g: "start_gating_event gated_runner = Some (Other_event 0)"
    by (simp add: gated_runner_simps)
  have w: "?w \<noteq> [] \<and> list_all (\<lambda>fl. \<not> fl (Other_event 0)) ?w" "all_set (Other_event 0)"
    "\<not> none_set (Other_event 0)"
    by (simp_all add: none_set_def all_set_def)
  note N = start_gate_protocol[of gated_runner "Other_event 0" ?w "dummy_job 0" "(0, 0)"
      all_set none_set none_set]
  from N g w have 1: "run_steps (dummy_job 0) ?w (start gated_runner, (0, 0)) =
      ((start gated_runner)\<lparr>running := False, thread := Some Line_89\<rparr>, (0, 0))"
    by (simp del: run_steps.simps)
  from N g w have 2: "run_steps (dummy_job 0) (?w @ [all_set, none_set, none_set])
      (start gated_runner, (0, 0)) = (before_job (start gated_runner), started_env gated_runner (0, 0))"
    by blast
  have e: "started_env gated_runner (0, 0) = (1, 0)"
    by (simp add: started_env_def gated_runner_simps count_start_def)
  show ?thesis
    unfolding 1 2 e using g w by (simp add: before_job_def)
qed

section \<open>The exit status of the command-line interface\<close>

text \<open>
  C5. The exit status is 1 when the result message of some record of the list of results
  does not contain \<^verbatim>\<open>Success\<close>, and 0 when every one contains it. It is computed by the
  step of \<^verbatim>\<open>Cli.run\<close> at line 206, and \<^verbatim>\<open>Cli.run\<close> is at that line only when the stop event
  of every runner is set.
\<close>

theorem exit_status_aggregate:
  "exit_status l = (if \<exists>info\<in>set l. \<not> sublist ''Success'' (fst (snd info)) then 1 else 0) \<and>
   (exit_status l = 1 \<longleftrightarrow> (\<exists>info\<in>set l. \<not> sublist ''Success'' (fst (snd info)))) \<and>
   (exit_status l = 0 \<longleftrightarrow> (\<forall>info\<in>set l. sublist ''Success'' (fst (snd info)))) \<and>
   (main s = Line_206 \<longrightarrow>
      cli_step jobs ext Main_thread s = s\<lparr>main := Exited (exit_status (result_info_list s))\<rparr>) \<and>
   (main (cli_exec jobs ext sched (cli_init rs)) = Line_206 \<longrightarrow>
      (\<forall>r\<in>set (runners (cli_exec jobs ext sched (cli_init rs))). stop_event r))"
proof -
  have 1: "exit_status l = (if \<exists>info\<in>set l. \<not> sublist ''Success'' (fst (snd info)) then 1 else 0)"
    by (rule exit_status_iff)
  have 2: "main s = Line_206 \<longrightarrow>
      cli_step jobs ext Main_thread s = s\<lparr>main := Exited (exit_status (result_info_list s))\<rparr>"
    by (simp add: cli_step_def cli_main_step_def)
  have 3: "main (cli_exec jobs ext sched (cli_init rs)) = Line_206 \<longrightarrow>
      (\<forall>r\<in>set (runners (cli_exec jobs ext sched (cli_init rs))). stop_event r)"
    using observed_exec[OF observed_init, of jobs ext sched rs]
    by (auto simp: observed_def in_set_conv_nth)
  from 1 2 3 show ?thesis by auto
qed

theorem exit_status_aggregate_witness:
  "exit_status [(''a'', ''Success'', ''Output from a''), (''b'', ''FAIL (1)'', ''Output from b'')] = 1 \<and>
   exit_status [(''a'', ''Success'', ''Output from a''), (''c'', ''Success'', ''Output from c'')] = 0"
proof -
  have a: "\<exists>info\<in>set [(''a'', ''Success'', ''Output from a''), (''b'', ''FAIL (1)'', ''Output from b'')].
      \<not> sublist ''Success'' (fst (snd info))"
    by (simp add: sublist_Cons_right)
  have b: "\<forall>info\<in>set [(''a'', ''Success'', ''Output from a''), (''c'', ''Success'', ''Output from c'')].
      sublist ''Success'' (fst (snd info))"
    by simp
  from exit_status_aggregate[of "[(''a'', ''Success'', ''Output from a''), (''b'', ''FAIL (1)'', ''Output from b'')]"] a
  have 1: "exit_status [(''a'', ''Success'', ''Output from a''), (''b'', ''FAIL (1)'', ''Output from b'')] = 1"
    by blast
  from exit_status_aggregate[of "[(''a'', ''Success'', ''Output from a''), (''c'', ''Success'', ''Output from c'')]"] b
  have 2: "exit_status [(''a'', ''Success'', ''Output from a''), (''c'', ''Success'', ''Output from c'')] = 0"
    by blast
  from 1 2 show ?thesis by blast
qed

section \<open>Starting a runner\<close>

text \<open>
  C6. \<^verbatim>\<open>start\<close> leaves \<open>result = -1\<close>, the output and the result message empty and the
  stop event not set, with the new thread at the first line of \<^verbatim>\<open>run\<close>; what these four
  fields held before does not matter. In particular this holds for a runner that went
  through an earlier run.
\<close>

theorem start_resets:
  "result (start r) = - 1 \<and> output_text (start r) = [] \<and> result_message (start r) = [] \<and>
   \<not> stop_event (start r) \<and> thread (start r) = Some Line_87 \<and>
   start (r\<lparr>result := a, output_text := b, result_message := c, stop_event := d\<rparr>) = start r \<and>
   result (start (fst (run_steps jb fls (start r, env)))) = - 1 \<and>
   output_text (start (fst (run_steps jb fls (start r, env)))) = [] \<and>
   result_message (start (fst (run_steps jb fls (start r, env)))) = [] \<and>
   \<not> stop_event (start (fst (run_steps jb fls (start r, env)))) \<and>
   thread (start (fst (run_steps jb fls (start r, env)))) = Some Line_87"
  by (simp add: start_simps start_def Let_def)

theorem start_resets_witness:
  "thread (fst (run_steps (dummy_job 1) (replicate 8 none_set) (start base_runner, (0, 0)))) =
     Some (Done None) \<and>
   result (fst (run_steps (dummy_job 1) (replicate 8 none_set) (start base_runner, (0, 0)))) = 1 \<and>
   result (start (fst (run_steps (dummy_job 1) (replicate 8 none_set) (start base_runner, (0, 0))))) = - 1 \<and>
   output_text (start (fst (run_steps (dummy_job 1) (replicate 8 none_set) (start base_runner, (0, 0))))) = [] \<and>
   result_message (start (fst (run_steps (dummy_job 1) (replicate 8 none_set) (start base_runner, (0, 0))))) = [] \<and>
   \<not> stop_event (start (fst (run_steps (dummy_job 1) (replicate 8 none_set) (start base_runner, (0, 0)))))"
proof -
  let ?c = "run_steps (dummy_job 1) (replicate 8 none_set) (start base_runner, (0, 0))"
  have j: "dummy_job 1 (before_job (start base_runner)) = Returned 1 ''Output from base runner''"
    by (simp add: dummy_job_def before_job_def start_simps base_runner_simps)
  have g: "8 \<le> length (replicate 8 none_set) \<and> list_all (gate_open (start base_runner)) (replicate 8 none_set)"
    by (simp add: gate_open_base_runner list_all_length)
  note N = run_returned[of "dummy_job 1" "start base_runner" 1
      "''Output from base runner''" "(0, 0)", OF j, unfolded run_entry_start]
  from N g have d: "thread (fst ?c) = Some (Done None)" by blast
  then have p: "past_job (thread (fst ?c))" by simp
  with N have r: "result (fst ?c) = 1" by blast
  from start_resets[of base_runner _ _ _ _ "dummy_job 1" "replicate 8 none_set" "(0, 0)"] d r
  show ?thesis by blast
qed

section \<open>The stop event\<close>

text \<open>
  C7. In a run launched by \<^verbatim>\<open>start\<close> the stop event is set exactly when the run is over.
  Along the configurations of an execution its flag goes from unset to set once if the run
  ends and never otherwise, and it ends once when the gate is open and the job body comes
  back; the flag never goes from set to unset along the steps of a run. The setters and
  \<^verbatim>\<open>terminate\<close> leave the flag as it is, a step of \<^verbatim>\<open>run\<close> keeps a set flag set, and
  \<^verbatim>\<open>start\<close> leaves it unset.
\<close>

theorem stop_event_set_once:
  "(stop_event (fst (run_steps jb fls (start r, env))) \<longleftrightarrow>
      (\<exists>x. thread (fst (run_steps jb fls (start r, env))) = Some (Done x))) \<and>
   rises (map (\<lambda>c. stop_event (fst c)) (run_trace jb fls (start r, env))) =
      (if \<exists>x. thread (fst (run_steps jb fls (start r, env))) = Some (Done x) then 1 else 0) \<and>
   (jb (before_job (start r)) \<noteq> Never_returns \<and> 8 \<le> length fls \<and> list_all (gate_open r) fls \<longrightarrow>
      rises (map (\<lambda>c. stop_event (fst c)) (run_trace jb fls (start r, env))) = 1) \<and>
   falls (map (\<lambda>c. stop_event (fst c)) (run_trace jb fls (q, env'))) = 0 \<and>
   (stop_event q \<longrightarrow> stop_event (fst (run_step jb fl (q, env')))) \<and>
   stop_event (set_start_gating_event gate q) = stop_event q \<and>
   stop_event (set_start_callback cb1 q) = stop_event q \<and>
   stop_event (set_stop_callback cb2 q) = stop_event q \<and>
   stop_event (set_args kwargs q) = stop_event q \<and>
   stop_event (terminate q) = stop_event q \<and>
   \<not> stop_event (start q)"
proof -
  define c where "c = run_steps jb fls (start r, env)"
  have st: "c \<in> set (stages jb (start r) env)"
    unfolding c_def using run_in_stages[of jb fls "start r" env] by (simp add: run_entry_start)
  have iff: "stop_event (fst c) \<longleftrightarrow> (\<exists>x. thread (fst c) = Some (Done x))"
    using stages_finally[OF st] by (auto simp: start_simps)
  have r: "rises (map (\<lambda>c. stop_event (fst c)) (run_trace jb fls (start r, env))) =
      (if \<exists>x. thread (fst c) = Some (Done x) then 1 else 0)"
    using iff by (simp add: rises_trace start_simps c_def)
  have live: "jb (before_job (start r)) \<noteq> Never_returns \<Longrightarrow> 8 \<le> length fls \<Longrightarrow>
      list_all (gate_open r) fls \<Longrightarrow> \<exists>y. thread (fst c) = Some (Done y)"
    unfolding c_def using run_ends[of jb "start r" fls env]
    by (simp add: run_entry_start gate_open_simps)
  have k: "stop_event q \<longrightarrow> stop_event (fst (run_step jb fl (q, env')))"
    using step_keeps_stop_event[of "(q, env')" jb fl] by simp
  have ops: "stop_event (set_start_gating_event gate q) = stop_event q"
    "stop_event (set_start_callback cb1 q) = stop_event q"
    "stop_event (set_stop_callback cb2 q) = stop_event q"
    "stop_event (set_args kwargs q) = stop_event q"
    "stop_event (terminate q) = stop_event q"
    "\<not> stop_event (start q)"
    by (simp_all add: set_start_gating_event_def set_start_callback_def set_stop_callback_def
        set_args_def terminate_def start_simps)
  from iff r live k ops falls_trace[of jb fls "(q, env')"] show ?thesis
    unfolding c_def[symmetric] by simp
qed

theorem stop_event_set_once_witness:
  "dummy_job 0 (before_job (start base_runner)) \<noteq> Never_returns \<and>
   8 \<le> length (replicate 8 none_set) \<and> list_all (gate_open base_runner) (replicate 8 none_set) \<and>
   rises (map (\<lambda>c. stop_event (fst c))
      (run_trace (dummy_job 0) (replicate 8 none_set) (start base_runner, (0, 0)))) = 1 \<and>
   stop_event (fst (run_steps (dummy_job 0) (replicate 8 none_set) (start base_runner, (0, 0)))) \<and>
   stop_event (fst (run_step (dummy_job 0) none_set
      (fst (run_steps (dummy_job 0) (replicate 8 none_set) (start base_runner, (0, 0))), (0, 0))))"
proof -
  let ?q = "fst (run_steps (dummy_job 0) (replicate 8 none_set) (start base_runner, (0, 0)))"
  have j: "dummy_job 0 (before_job (start base_runner)) \<noteq> Never_returns"
    by (simp add: dummy_job_base_runner)
  note N = stop_event_set_once[of "dummy_job 0" "replicate 8 none_set" base_runner "(0, 0)"
      ?q "(0, 0)" none_set]
  from N j open_8 have 1: "rises (map (\<lambda>c. stop_event (fst c))
      (run_trace (dummy_job 0) (replicate 8 none_set) (start base_runner, (0, 0)))) = 1"
    by blast
  with N have 2: "stop_event ?q"
    by (metis zero_neq_one)
  with N have 3: "stop_event (fst (run_step (dummy_job 0) none_set (?q, (0, 0))))"
    by blast
  from j open_8 1 2 3 show ?thesis by blast
qed

section \<open>Three runners with the result codes 0, 1 and 0\<close>

text \<open>
  C8, as the code has it. Three runners that have no thread yet and no gate, with job
  bodies that return the result codes 0, 1 and 0, driven by \<^verbatim>\<open>Cli.run\<close> under any schedule
  of the four threads: when the process has exited, its exit status is 1, the list of
  results has exactly three records, and these are the records of the three runners in
  some order, \<^verbatim>\<open>Success\<close> for the first and the third and \<^verbatim>\<open>FAIL (1)\<close> for the second.
  Every execution can be continued to the exit.
\<close>

theorem three_runners_results:
  assumes fresh: "thread r0 = None \<and> start_gating_event r0 = None"
      "thread r1 = None \<and> start_gating_event r1 = None"
      "thread r2 = None \<and> start_gating_event r2 = None"
    and jobs: "\<forall>q. \<exists>out. jobs 0 q = Returned 0 out" "\<forall>q. \<exists>out. jobs 1 q = Returned 1 out"
      "\<forall>q. \<exists>out. jobs 2 q = Returned 0 out"
  shows "(\<forall>sched c. main (cli_exec jobs ext sched (cli_init [r0, r1, r2])) = Exited c \<longrightarrow>
            c = 1 \<and>
            length (result_info_list (cli_exec jobs ext sched (cli_init [r0, r1, r2]))) = 3 \<and>
            (\<exists>order. distinct order \<and> set order = {0, 1, 2} \<and>
               map (\<lambda>info. (fst info, fst (snd info)))
                 (result_info_list (cli_exec jobs ext sched (cli_init [r0, r1, r2]))) =
               map (\<lambda>i. [(name r0, ''Success''), (name r1, ''FAIL (1)''), (name r2, ''Success'')] ! i)
                 order)) \<and>
         (\<forall>sched. \<exists>c. main (cli_exec jobs ext (sched @ in_order_schedule) (cli_init [r0, r1, r2])) =
            Exited c)"
proof (intro conjI allI impI)
  let ?rs = "[r0, r1, r2]" and ?codes = "[0, 1, 0] :: int list"
  have fr: "\<forall>r\<in>set ?rs. thread r = None \<and> start_gating_event r = None"
    using fresh by simp
  have jb: "\<forall>i<length ?rs. \<forall>q. \<exists>out. jobs i q = Returned (?codes ! i) out"
    using jobs by (auto simp: less_Suc_eq numeral_3_eq_3 numeral_2_eq_2)
  {
    fix sched c
    let ?s = "cli_exec jobs ext sched (cli_init ?rs)"
    assume ex: "main ?s = Exited c"
    note R = cli_exit_results[of ?rs jobs ?codes ext sched c, OF fr jb ex]
    from R have c: "c = exit_status (result_info_list ?s)" by (rule conjunct1)
    from R obtain order where d: "distinct order" and so: "set order = {0..<length ?rs}"
      and mp: "map (\<lambda>info. (fst info, fst (snd info))) (result_info_list ?s) =
            map (\<lambda>i. (name (?rs ! i), result_message_of (?codes ! i))) order"
      by blast
    have so': "set order = {0, 1, 2}" using so by (simp only: upt3)
    define expected where
      "expected = [(name r0, ''Success''), (name r1, ''FAIL (1)''), (name r2, ''Success'')]"
    have pt: "(name (?rs ! i), result_message_of (?codes ! i)) = expected ! i" if "i \<in> set order" for i
    proof -
      from that so' have "i = 0 \<or> i = 1 \<or> i = 2" by simp
      then show ?thesis
        by (elim disjE) (simp_all add: expected_def result_message_of_simps)
    qed
    have eq: "map (\<lambda>i. (name (?rs ! i), result_message_of (?codes ! i))) order =
        map (\<lambda>i. expected ! i) order"
      by (rule map_cong[OF refl]) (rule pt)
    have "length order = card (set order)" using d by (simp add: distinct_card)
    then have lo: "length order = 3" using so' by (simp only: card3)
    have len: "length (result_info_list ?s) = 3"
      using arg_cong[OF mp, of length] lo by simp
    have "1 \<in> set order" using so' by simp
    then have "expected ! 1 \<in> (\<lambda>i. expected ! i) ` set order" by (rule imageI)
    then have "expected ! 1 \<in> set (map (\<lambda>info. (fst info, fst (snd info))) (result_info_list ?s))"
      unfolding mp eq by (simp only: set_map)
    then obtain info where i1: "info \<in> set (result_info_list ?s)"
      and i2: "expected ! 1 = (fst info, fst (snd info))"
      unfolding set_map by (elim imageE)
    have "expected ! 1 = (name r1, ''FAIL (1)'')" by (simp add: expected_def)
    with i2 have i3: "fst (snd info) = ''FAIL (1)''" by (simp only: prod.inject)
    have "\<not> sublist ''Success'' (fst (snd info))" unfolding i3 by (rule sublist_FAIL1)
    with i1 have "\<exists>info\<in>set (result_info_list ?s). \<not> sublist ''Success'' (fst (snd info))"
      by (rule bexI[rotated])
    then have c1: "c = 1" unfolding c by (simp add: exit_status_iff)
    show "c = 1" by (rule c1)
    show "length (result_info_list ?s) = 3" by (rule len)
    from d so' mp eq
    have "distinct order \<and> set order = {0, 1, 2} \<and>
               map (\<lambda>info. (fst info, fst (snd info))) (result_info_list ?s) =
               map (\<lambda>i. expected ! i) order"
      by simp
    then show "\<exists>order. distinct order \<and> set order = {0, 1, 2} \<and>
               map (\<lambda>info. (fst info, fst (snd info))) (result_info_list ?s) =
               map (\<lambda>i. [(name r0, ''Success''), (name r1, ''FAIL (1)''), (name r2, ''Success'')] ! i)
                 order"
      unfolding expected_def by (rule exI)
  }
  fix sched
  let ?t = "cli_exec jobs ext sched (cli_init ?rs)"
  have jb': "\<forall>i<length (map name ?rs). \<forall>q. \<exists>out. jobs i q = Returned (?codes ! i) out"
    using jb by simp
  have inv: "cli_inv (map name ?rs) ?codes ?t"
    by (rule cli_inv_exec[of "map name ?rs" jobs ?codes, OF jb' cli_inv_init[OF fr]])
  from in_order_schedule_exits[of "map name ?rs" jobs ?codes ?t ext, OF jb' _ inv]
  show "\<exists>c. main (cli_exec jobs ext (sched @ in_order_schedule) (cli_init ?rs)) = Exited c"
    by (simp add: cli_exec_append)
qed

theorem three_runners_results_witness:
  "main (cli_exec jobs_0_1_0 no_other_event in_order_schedule (cli_init three_runners)) = Exited 1 \<and>
   length (result_info_list
     (cli_exec jobs_0_1_0 no_other_event in_order_schedule (cli_init three_runners))) = 3 \<and>
   map fst (result_info_list
     (cli_exec jobs_0_1_0 no_other_event in_order_schedule (cli_init three_runners))) =
     [''a'', ''b'', ''c'']"
proof -
  let ?s = "cli_exec jobs_0_1_0 no_other_event in_order_schedule (cli_init three_runners)"
  note N = three_runners_results[of "init ''a''" "init ''b''" "init ''c''" jobs_0_1_0 no_other_event,
      OF three_runners_fresh jobs_0_1_0_return, folded three_runners_def]
  from N have "\<exists>c. main (cli_exec jobs_0_1_0 no_other_event ([] @ in_order_schedule)
      (cli_init three_runners)) = Exited c" by blast
  then obtain c where e: "main ?s = Exited c" by auto
  with N have c: "c = 1" and l: "length (result_info_list ?s) = 3" by blast+
  have m: "map fst (result_info_list ?s) = [''a'', ''b'', ''c'']" by code_simp
  from e c l m show ?thesis by simp
qed

text \<open>
  C8, as stated, fails on the order: the stop callback appends to the list when a runner
  finishes. When the middle runner finishes first its record comes first, and the middle
  record of the list is that of the first runner, with \<^verbatim>\<open>Success\<close>.
\<close>

theorem completion_order_counterexample:
  "main (cli_exec jobs_0_1_0 no_other_event middle_first_schedule (cli_init three_runners)) =
     Exited 1 \<and>
   result_info_list (cli_exec jobs_0_1_0 no_other_event middle_first_schedule (cli_init three_runners)) =
     [(''b'', ''FAIL (1)'', ''Output from b''), (''a'', ''Success'', ''Output from a''),
      (''c'', ''Success'', ''Output from c'')]"
  by code_simp

section \<open>The job body of the base class\<close>

text \<open>
  C9. The job body of \<^verbatim>\<open>BaseJobRunner\<close> returns 1 and the text \<^verbatim>\<open>Override this method\<close>;
  a run with it records result 1, that output and the result message \<^verbatim>\<open>FAIL (1)\<close>, and
  with the start gate open the run is over after eight steps.
\<close>

theorem default_job_fails:
  "job q = Returned 1 ''Override this method'' \<and>
   (\<forall>fls. past_job (thread (fst (run_steps job fls (run_entry r, env)))) \<longrightarrow>
      result (fst (run_steps job fls (run_entry r, env))) = 1 \<and>
      output_text (fst (run_steps job fls (run_entry r, env))) = ''Override this method'' \<and>
      result_message (fst (run_steps job fls (run_entry r, env))) = ''FAIL (1)'') \<and>
   (\<forall>fls. 8 \<le> length fls \<and> list_all (gate_open r) fls \<longrightarrow>
      thread (fst (run_steps job fls (run_entry r, env))) = Some (Done None))"
proof -
  have j: "job (before_job r) = Returned 1 ''Override this method''"
    by (simp add: job_def)
  from run_returned[of job r 1 "''Override this method''" env, OF j]
  show ?thesis by (simp add: str_int_examples) (simp add: job_def)
qed

theorem default_job_fails_witness:
  "thread (fst (run_steps job (replicate 8 none_set) (start base_runner, (0, 0)))) = Some (Done None) \<and>
   result_message (fst (run_steps job (replicate 8 none_set) (start base_runner, (0, 0)))) = ''FAIL (1)''"
proof -
  let ?c = "run_steps job (replicate 8 none_set) (start base_runner, (0, 0))"
  have g: "8 \<le> length (replicate 8 none_set) \<and> list_all (gate_open (start base_runner)) (replicate 8 none_set)"
    by (simp add: gate_open_base_runner list_all_length)
  note N = default_job_fails[of _ "start base_runner" "(0, 0)", unfolded run_entry_start]
  from N g have d: "thread (fst ?c) = Some (Done None)" by blast
  then have p: "past_job (thread (fst ?c))" by simp
  with N have "result_message (fst ?c) = ''FAIL (1)''" by blast
  with d show ?thesis by blast
qed

section \<open>The result field when the job raises\<close>

text \<open>
  C10. In a run launched by \<^verbatim>\<open>start\<close> whose job body raises, whatever the exception,
  \<open>result\<close> is \<open>-1\<close> in every configuration of the run, and with the start gate open the
  run is over after eight steps.
\<close>

theorem result_untouched_on_raise:
  assumes "jb (before_job (start r)) = Raised e"
  shows "(\<forall>fls. result (fst (run_steps jb fls (start r, env))) = - 1) \<and>
         (\<forall>fls. 8 \<le> length fls \<and> list_all (gate_open r) fls \<longrightarrow>
            (\<exists>x. thread (fst (run_steps jb fls (start r, env))) = Some (Done x)))"
proof (intro conjI allI impI)
  fix fls
  from run_raised_result[of jb "start r" e fls env, OF assms]
  show "result (fst (run_steps jb fls (start r, env))) = - 1"
    by (simp add: run_entry_start start_simps)
next
  fix fls
  assume a: "8 \<le> length fls \<and> list_all (gate_open r) fls"
  have "jb (before_job (start r)) \<noteq> Never_returns" using assms by simp
  from run_ends[of jb "start r" fls env, OF this] a
  show "\<exists>x. thread (fst (run_steps jb fls (start r, env))) = Some (Done x)"
    by (simp add: run_entry_start gate_open_simps)
qed

theorem result_untouched_on_raise_witness:
  "type_error_job (before_job (start base_runner)) =
     Raised \<lparr>type_name = ''TypeError'', str_of = ''must be str, not NoneType'', is_Exception = True\<rparr> \<and>
   (\<exists>x. thread (fst (run_steps type_error_job (replicate 8 none_set) (start base_runner, (0, 0)))) =
     Some (Done x)) \<and>
   result (fst (run_steps type_error_job (replicate 8 none_set) (start base_runner, (0, 0)))) = - 1"
proof -
  let ?e = "\<lparr>type_name = ''TypeError'', str_of = ''must be str, not NoneType'', is_Exception = True\<rparr>"
  have j: "type_error_job (before_job (start base_runner)) = Raised ?e"
    by (simp add: type_error_job_def)
  have g: "8 \<le> length (replicate 8 none_set) \<and> list_all (gate_open base_runner) (replicate 8 none_set)"
    by (simp add: gate_open_def base_runner_simps list_all_length)
  from result_untouched_on_raise[of type_error_job base_runner ?e "(0, 0)", OF j] g j
  show ?thesis by blast
qed

end
